theory Spec2Isabelle
  imports Main "HOL-Library.Sublist" "HOL-Library.Monad_Syntax" "HOL-Library.Multiset"
begin

section \<open>JavaScript strings\<close>

text \<open>
  A JavaScript string is a sequence of UTF-16 code units; \<open>length\<close>, \<open>split\<close>,
  \<open>includes\<close> and the regular expressions of the source (none has the \<open>u\<close> flag) all
  work on code units. A code unit is modelled as a natural number, so that the bullet
  U+2022 of the source's character classes is one element, as it is in JavaScript.
  \<open>js\<close> turns an ASCII literal into such a string.
\<close>

type_synonym jschar = nat
type_synonym jsstring = "jschar list"

definition js :: "string \<Rightarrow> jsstring" where
  "js s = map of_char s"

definition LF :: jschar where "LF = 10"
definition BULLET :: jschar where "BULLET = 8226"

text \<open>
  The characters matched by \<open>\s\<close> and removed by \<open>trim()\<close>: WhiteSpace (TAB, VT, FF, SP,
  NBSP, ZWNBSP and the space separators) and LineTerminator (LF, CR, LS, PS).
\<close>

definition isWhiteSpace :: "jschar \<Rightarrow> bool" where
  "isWhiteSpace c \<longleftrightarrow>
     c = 9 \<or> c = 10 \<or> c = 11 \<or> c = 12 \<or> c = 13 \<or> c = 32 \<or> c = 160 \<or> c = 5760 \<or>
     (8192 \<le> c \<and> c \<le> 8202) \<or> c = 8232 \<or> c = 8233 \<or> c = 8239 \<or> c = 8287 \<or>
     c = 12288 \<or> c = 65279"

text \<open>The class \<open>\d\<close>: the ASCII digits.\<close>

definition isDigit :: "jschar \<Rightarrow> bool" where
  "isDigit c \<longleftrightarrow> 48 \<le> c \<and> c \<le> 57"

text \<open>\<open>s.trim()\<close>\<close>

definition trim :: "jsstring \<Rightarrow> jsstring" where
  "trim s = rev (dropWhile isWhiteSpace (rev (dropWhile isWhiteSpace s)))"

text \<open>
  \<open>s.split(sep)\<close> for a one-character separator: the pieces between the separators, in
  order; a string without separator (the empty string too) gives one piece.
\<close>

fun split_str :: "jschar \<Rightarrow> jsstring \<Rightarrow> jsstring list" where
  "split_str sep [] = [[]]"
| "split_str sep (c # cs) =
     (if c = sep then [] # split_str sep cs
      else (case split_str sep cs of
              [] \<Rightarrow> [[c]]
            | l # ls \<Rightarrow> (c # l) # ls))"

text \<open>\<open>s.includes(t)\<close>: \<open>t\<close> occurs in \<open>s\<close> as a contiguous substring.\<close>

definition str_includes :: "jsstring \<Rightarrow> jsstring \<Rightarrow> bool" where
  "str_includes s t \<longleftrightarrow> sublist t s"

text \<open>
  \<open>s.toLowerCase()\<close>. The model lowers the letters A to Z and leaves every other code
  unit as it is: this is JavaScript's result on every string of Basic Latin characters,
  and the keywords the source looks for after lowering are Basic Latin.
\<close>

definition lowerChar :: "jschar \<Rightarrow> jschar" where
  "lowerChar c = (if 65 \<le> c \<and> c \<le> 90 then c + 32 else c)"

definition toLowerCase :: "jsstring \<Rightarrow> jsstring" where
  "toLowerCase s = map lowerChar s"


section \<open>Fridge analysis: the text fallback for ingredients\<close>

text \<open>
  \<open>line.replace(/^[-*\<bullet>]\s*/, '')\<close> (the class holds the hyphen, the asterisk and the
  bullet U+2022): when the first character of the line is one of the three, it is removed
  together with the white space that follows it; otherwise the line is unchanged.
\<close>

definition isBullet :: "jschar \<Rightarrow> bool" where
  "isBullet c \<longleftrightarrow> c = 45 \<or> c = 42 \<or> c = BULLET"

definition stripBullet :: "jsstring \<Rightarrow> jsstring" where
  "stripBullet line =
     (case line of
        [] \<Rightarrow> []
      | c # cs \<Rightarrow> if isBullet c then dropWhile isWhiteSpace cs else line)"

text \<open>
  The \<open>catch\<close> branch of the ingredient parse in \<open>processImage\<close>:
  \<^verbatim>\<open>content.split('\n').map(line => line.replace(/^[-*\<bullet>]\s*/, '').trim())
         .filter(item => item.length > 0).slice(0, 10)\<close>
\<close>

definition fallbackIngredients :: "jsstring \<Rightarrow> jsstring list" where
  "fallbackIngredients content =
     take 10 (filter (\<lambda>item. length item > 0)
               (map (\<lambda>line. trim (stripBullet line)) (split_str LF content)))"


section \<open>JSON values\<close>

text \<open>
  The result of \<open>JSON.parse\<close> is an untyped value; the TypeScript annotations of the
  source (\<open>string[]\<close>, \<open>any[]\<close>, \<open>any\<close>) are erased at run time, so the model keeps the
  value untyped until a validator of a mutation checks it. The program never computes
  with a JSON number; integers stand for them.
\<close>

datatype json =
    JNull
  | JBool bool
  | JNum int
  | JStr jsstring
  | JArr "json list"
  | JObj "(jsstring \<times> json) list"

text \<open>Reading a property of an object: the first binding of the key.\<close>

definition getProp :: "(jsstring \<times> json) list \<Rightarrow> jsstring \<Rightarrow> json option" where
  "getProp kvs k = map_of kvs k"

text \<open>Assigning a property: an existing key keeps its place, a new key is added last.\<close>

fun setProp :: "jsstring \<Rightarrow> json \<Rightarrow> (jsstring \<times> json) list \<Rightarrow> (jsstring \<times> json) list" where
  "setProp k v [] = [(k, v)]"
| "setProp k v ((k', v') # kvs) =
     (if k' = k then (k, v) # kvs else (k', v') # setProp k v kvs)"

text \<open>The decimal digits of an array index, as a property key.\<close>

function decimal :: "nat \<Rightarrow> jsstring" where
  "decimal n = (if n < 10 then [48 + n] else decimal (n div 10) @ [48 + n mod 10])"
  by pat_completeness auto
termination
  by (relation "measure id") auto

text \<open>
  The own enumerable properties that an object spread \<open>{...x}\<close> copies from \<open>x\<close>: the
  members of an object, the indexed elements of an array, the indexed characters of a
  string, and nothing of a number, a boolean or \<open>null\<close>.
\<close>

definition ownProps :: "json \<Rightarrow> (jsstring \<times> json) list" where
  "ownProps x =
     (case x of
        JObj kvs \<Rightarrow> kvs
      | JArr xs \<Rightarrow> map (\<lambda>i. (decimal i, xs ! i)) [0 ..< length xs]
      | JStr s \<Rightarrow> map (\<lambda>i. (decimal i, JStr [s ! i])) [0 ..< length s]
      | _ \<Rightarrow> [])"

text \<open>\<open>{...a, ...x}\<close>: the properties of \<open>x\<close> are assigned onto those of \<open>a\<close>, in order.\<close>

definition spread :: "(jsstring \<times> json) list \<Rightarrow> json \<Rightarrow> (jsstring \<times> json) list" where
  "spread a x = foldl (\<lambda>acc (k, v). setProp k v acc) a (ownProps x)"

datatype error =
    NotAuthenticated
  | ImageNotFound
  | NoIngredientsIdentified
  | NoRecipeInformation
  | NotFoundOrNotAuthorized
  | InferenceError
  | TypeError
  | ArgumentValidationError
  | NonexistentDocument

text \<open>
  The test \<open>x.length === 0\<close> on an untyped value: reading a property of \<open>null\<close> throws a
  TypeError; an array and a string have their length; a number and a boolean have no
  such property, and \<open>undefined === 0\<close> is false; an object has the length that its own
  member \<open>length\<close> gives it, if any.
\<close>

definition lengthIsZero :: "json \<Rightarrow> error + bool" where
  "lengthIsZero x =
     (case x of
        JNull \<Rightarrow> Inl TypeError
      | JArr xs \<Rightarrow> Inr (xs = [])
      | JStr s \<Rightarrow> Inr (s = [])
      | JObj kvs \<Rightarrow> Inr (getProp kvs (js ''length'') = Some (JNum 0))
      | _ \<Rightarrow> Inr False)"

text \<open>
  Whether converting a value to a string throws, as \<open>Array.prototype.join\<close> does to each
  element: an object parsed from JSON whose own member \<open>toString\<close> shadows the inherited
  method has nothing callable to convert it (TypeError); an array converts its elements
  in turn; \<open>null\<close> and the primitive values convert.
\<close>

fun toStringThrows :: "json \<Rightarrow> bool" where
  "toStringThrows (JObj kvs) = (getProp kvs (js ''toString'') \<noteq> None)"
| "toStringThrows (JArr xs) = (\<exists>x \<in> set xs. toStringThrows x)"
| "toStringThrows _ = False"

text \<open>
  \<open>x.join(", ")\<close> is evaluated for the prompt of the second inference call. Only an
  array has the method; the text it builds goes to the inference service and is not
  needed here, so the model keeps the elements and records whether the call throws.
\<close>

definition joinElements :: "json \<Rightarrow> error + json list" where
  "joinElements x =
     (case x of
        JArr xs \<Rightarrow> if \<exists>e \<in> set xs. toStringThrows e then Inl TypeError else Inr xs
      | _ \<Rightarrow> Inl TypeError)"


section \<open>Validators\<close>

text \<open>
  The argument validators of the internal mutations (\<open>v.string()\<close>, \<open>v.array(...)\<close>,
  \<open>v.object({...})\<close>, \<open>v.optional(...)\<close>): a value that does not have the declared shape
  is rejected before the handler runs. An object validator requires every declared
  field, allows an optional field to be missing, and rejects a field that is not declared.
\<close>

definition v_string :: "json \<Rightarrow> jsstring option" where
  "v_string x = (case x of JStr s \<Rightarrow> Some s | _ \<Rightarrow> None)"

definition v_array :: "(json \<Rightarrow> 'a option) \<Rightarrow> json \<Rightarrow> 'a list option" where
  "v_array v x = (case x of JArr xs \<Rightarrow> those (map v xs) | _ \<Rightarrow> None)"

definition field :: "(jsstring \<times> json) list \<Rightarrow> jsstring \<Rightarrow> (json \<Rightarrow> 'a option) \<Rightarrow> 'a option" where
  "field kvs k v = Option.bind (getProp kvs k) v"

definition optionalField ::
  "(jsstring \<times> json) list \<Rightarrow> jsstring \<Rightarrow> (json \<Rightarrow> 'a option) \<Rightarrow> 'a option option" where
  "optionalField kvs k v =
     (case getProp kvs k of None \<Rightarrow> Some None | Some x \<Rightarrow> map_option Some (v x))"

definition onlyFields :: "(jsstring \<times> json) list \<Rightarrow> jsstring list \<Rightarrow> bool" where
  "onlyFields kvs ks \<longleftrightarrow> (\<forall>k \<in> set (map fst kvs). k \<in> set ks)"


section \<open>Data model\<close>

text \<open>
  The two tables of \<open>schema.ts\<close>. Document ids are allocated from a counter, so a larger
  id is a later creation time: the id also stands for the \<open>_creationTime\<close> by which the
  index \<open>by_user\<close> orders the documents of one user.
\<close>

type_synonym userId = nat
type_synonym storageId = nat
type_synonym docId = nat

datatype status = Processing | Completed | Failed

record recipe =
  rc_name :: jsstring
  rc_ingredients :: "jsstring list"
  rc_instructions :: "jsstring list"
  rc_cookingTime :: jsstring
  rc_difficulty :: jsstring

record fridgeAnalysis =
  fa_userId :: userId
  fa_imageId :: storageId
  fa_ingredients :: "jsstring list"
  fa_recipes :: "recipe list"
  analysisStatus :: status

record scannedRecipe =
  sr_userId :: userId
  sr_imageId :: storageId
  sr_name :: jsstring
  sr_ingredients :: "jsstring list"
  sr_instructions :: "jsstring list"
  sr_cookingTime :: "jsstring option"
  sr_servings :: "jsstring option"
  sr_difficulty :: "jsstring option"
  sr_category :: "jsstring option"
  scanStatus :: status

text \<open>A task handed to the scheduler by \<open>ctx.scheduler.runAfter\<close>.\<close>

datatype task =
    ProcessImage docId storageId
  | ProcessRecipeImage docId storageId

record state =
  fridgeAnalyses :: "(docId \<times> fridgeAnalysis) list"
  scannedRecipes :: "(docId \<times> scannedRecipe) list"
  scheduled :: "task list"
  nextId :: docId

definition init :: state where
  "init = \<lparr>fridgeAnalyses = [], scannedRecipes = [], scheduled = [], nextId = 0\<rparr>"

text \<open>A document returned by a query, with the \<open>imageUrl\<close> the query adds to it.\<close>

record 'a annotated =
  doc_id :: docId
  doc :: 'a
  imageUrl :: "jsstring option"


section \<open>The record store\<close>

text \<open>
  \<open>ctx.db.get\<close>, \<open>ctx.db.patch\<close>, \<open>ctx.db.delete\<close> and the indexed query
  \<open>withIndex("by_user", q => q.eq("userId", u)).order("desc").take(n)\<close>. Patching or
  deleting a document that does not exist throws, which is the result \<open>None\<close> here.
\<close>

definition db_get :: "(docId \<times> 'a) list \<Rightarrow> docId \<Rightarrow> 'a option" where
  "db_get tbl i = map_of tbl i"

definition patchDoc :: "docId \<Rightarrow> ('a \<Rightarrow> 'a) \<Rightarrow> (docId \<times> 'a) list \<Rightarrow> (docId \<times> 'a) list" where
  "patchDoc i f tbl = map (\<lambda>(k, d). if k = i then (k, f d) else (k, d)) tbl"

definition db_patch :: "docId \<Rightarrow> ('a \<Rightarrow> 'a) \<Rightarrow> (docId \<times> 'a) list \<Rightarrow> (docId \<times> 'a) list option" where
  "db_patch i f tbl =
     (case map_of tbl i of
        None \<Rightarrow> None
      | Some _ \<Rightarrow> Some (patchDoc i f tbl))"

definition db_delete :: "docId \<Rightarrow> (docId \<times> 'a) list \<Rightarrow> (docId \<times> 'a) list option" where
  "db_delete i tbl =
     (case map_of tbl i of
        None \<Rightarrow> None
      | Some _ \<Rightarrow> Some (filter (\<lambda>(k, d). k \<noteq> i) tbl))"

definition db_query_by_user ::
  "('a \<Rightarrow> userId) \<Rightarrow> userId \<Rightarrow> nat \<Rightarrow> (docId \<times> 'a) list \<Rightarrow> (docId \<times> 'a) list" where
  "db_query_by_user owner u n tbl =
     take n (rev (sort_key fst (filter (\<lambda>(k, d). owner d = u) tbl)))"


section \<open>The fridge module\<close>

text \<open>
  The result of an inference call \<open>openai.chat.completions.create\<close>: the call is
  rejected, or it returns the list \<open>choices\<close>, of which the source reads
  \<open>choices[0].message.content\<close>, a string or \<open>null\<close>.
\<close>

datatype completion = Rejected | Choices "jsstring option list"

definition firstContent :: "jsstring option list \<Rightarrow> error + jsstring option" where
  "firstContent choices = (case choices of [] \<Rightarrow> Inl TypeError | c # _ \<Rightarrow> Inr c)"

definition v_recipe :: "json \<Rightarrow> recipe option" where
  "v_recipe x =
     (case x of
        JObj kvs \<Rightarrow>
          if onlyFields kvs [js ''name'', js ''ingredients'', js ''instructions'',
                             js ''cookingTime'', js ''difficulty'']
          then do {
            n \<leftarrow> field kvs (js ''name'') v_string;
            i \<leftarrow> field kvs (js ''ingredients'') (v_array v_string);
            t \<leftarrow> field kvs (js ''instructions'') (v_array v_string);
            c \<leftarrow> field kvs (js ''cookingTime'') v_string;
            d \<leftarrow> field kvs (js ''difficulty'') v_string;
            Some \<lparr>rc_name = n, rc_ingredients = i, rc_instructions = t,
                  rc_cookingTime = c, rc_difficulty = d\<rparr>
          }
          else None
      | _ \<Rightarrow> None)"

text \<open>The handler of \<open>generateUploadUrl\<close>; the upload URL comes from the object store.\<close>

definition generateUploadUrl ::
  "jsstring \<Rightarrow> userId option \<Rightarrow> state \<Rightarrow> (error + jsstring) \<times> state" where
  "generateUploadUrl uploadUrl uid s =
     (case uid of
        None \<Rightarrow> (Inl NotAuthenticated, s)
      | Some userId \<Rightarrow> (Inr uploadUrl, s))"

text \<open>
  \<open>analyzeImage\<close>: a handler returns its result and the state it leaves; where it throws,
  the state is the one reached at the \<open>throw\<close>.
\<close>

definition analyzeImage :: "userId option \<Rightarrow> storageId \<Rightarrow> state \<Rightarrow> (error + docId) \<times> state" where
  "analyzeImage uid storageId s =
     (case uid of
        None \<Rightarrow> (Inl NotAuthenticated, s)
      | Some userId \<Rightarrow>
          let analysisId = nextId s;
              s1 = s\<lparr>fridgeAnalyses := fridgeAnalyses s @
                        [(analysisId, \<lparr>fa_userId = userId, fa_imageId = storageId,
                                       fa_ingredients = [], fa_recipes = [],
                                       analysisStatus = Processing\<rparr>)],
                     nextId := Suc (nextId s)\<rparr>;
              s2 = s1\<lparr>scheduled := scheduled s1 @ [ProcessImage analysisId storageId]\<rparr>
          in (Inr analysisId, s2))"

text \<open>The handler of \<open>updateAnalysis\<close>, on arguments that passed its validators.\<close>

definition updateAnalysis ::
  "docId \<Rightarrow> jsstring list \<Rightarrow> recipe list \<Rightarrow> status \<Rightarrow> state \<Rightarrow> (error + unit) \<times> state" where
  "updateAnalysis analysisId ingredients recipes st s =
     (case db_patch analysisId
             (\<lambda>d. d\<lparr>fa_ingredients := ingredients, fa_recipes := recipes,
                    analysisStatus := st\<rparr>)
             (fridgeAnalyses s) of
        None \<Rightarrow> (Inl NonexistentDocument, s)
      | Some tbl \<Rightarrow> (Inr (), s\<lparr>fridgeAnalyses := tbl\<rparr>))"

text \<open>
  \<open>ctx.runMutation(internal.fridge.updateAnalysis, ...)\<close>: the untyped arguments are
  validated, then the handler runs.
\<close>

definition runUpdateAnalysis ::
  "docId \<Rightarrow> json \<Rightarrow> json \<Rightarrow> status \<Rightarrow> state \<Rightarrow> (error + unit) \<times> state" where
  "runUpdateAnalysis analysisId ingredients recipes st s =
     (case v_array v_string ingredients of
        None \<Rightarrow> (Inl ArgumentValidationError, s)
      | Some i \<Rightarrow>
          (case v_array v_recipe recipes of
             None \<Rightarrow> (Inl ArgumentValidationError, s)
           | Some r \<Rightarrow> updateAnalysis analysisId i r st s))"

text \<open>
  The ingredient parse of \<open>processImage\<close> (the inner \<open>try\<close>/\<open>catch\<close> around the first
  \<open>JSON.parse\<close>). \<open>JSON_parse\<close> is the platform's parser: \<open>None\<close> when it throws. An empty
  \<open>choices\<close> makes the read of \<open>choices[0].message\<close> throw in the \<open>try\<close> and again in the
  \<open>catch\<close>, so the TypeError leaves the block. A \<open>null\<close> or empty content is not parsed.
\<close>

definition parseIngredients ::
  "(jsstring \<Rightarrow> json option) \<Rightarrow> jsstring option list \<Rightarrow> error + json" where
  "parseIngredients JSON_parse choices =
     (case firstContent choices of
        Inl e \<Rightarrow> Inl e
      | Inr None \<Rightarrow> Inr (JArr [])
      | Inr (Some content) \<Rightarrow>
          if content = [] then Inr (JArr [])
          else (case JSON_parse content of
                  Some v \<Rightarrow> Inr v
                | None \<Rightarrow> Inr (JArr (map JStr (fallbackIngredients content)))))"

text \<open>The recipe that replaces an unparsable recipe response.\<close>

definition fallbackRecipe :: "json list \<Rightarrow> json" where
  "fallbackRecipe ingredients =
     JObj [(js ''name'', JStr (js ''Simple Stir Fry'')),
           (js ''ingredients'', JArr (take 4 ingredients)),
           (js ''instructions'',
              JArr [JStr (js ''Heat oil in pan''), JStr (js ''Add ingredients''),
                    JStr (js ''Stir fry for 5-7 minutes''), JStr (js ''Season and serve'')]),
           (js ''cookingTime'', JStr (js ''15 minutes'')),
           (js ''difficulty'', JStr (js ''Easy''))]"

text \<open>
  The recipe parse of \<open>processImage\<close>: here the \<open>catch\<close> does not read the response
  again, so every exception of the \<open>try\<close> (an empty \<open>choices\<close> too) gives the fallback.
\<close>

definition parseRecipes ::
  "(jsstring \<Rightarrow> json option) \<Rightarrow> json list \<Rightarrow> jsstring option list \<Rightarrow> json" where
  "parseRecipes JSON_parse ingredients choices =
     (case firstContent choices of
        Inl e \<Rightarrow> JArr [fallbackRecipe ingredients]
      | Inr None \<Rightarrow> JArr []
      | Inr (Some content) \<Rightarrow>
          if content = [] then JArr []
          else (case JSON_parse content of
                  Some v \<Rightarrow> v
                | None \<Rightarrow> JArr [fallbackRecipe ingredients]))"

text \<open>
  The \<open>try\<close> block of \<open>processImage\<close>. \<open>getUrl\<close> is the object store, \<open>r1\<close> and \<open>r2\<close> are
  the results of the two inference calls. Nothing is written before the final mutation,
  so an exception leaves the state as it was.
\<close>

definition processImage_try ::
  "(jsstring \<Rightarrow> json option) \<Rightarrow> (storageId \<Rightarrow> jsstring option) \<Rightarrow> completion \<Rightarrow> completion \<Rightarrow>
   docId \<Rightarrow> storageId \<Rightarrow> state \<Rightarrow> (error + unit) \<times> state" where
  "processImage_try JSON_parse getUrl r1 r2 analysisId storageId s =
     (case getUrl storageId of
        None \<Rightarrow> (Inl ImageNotFound, s)
      | Some url \<Rightarrow>
          if url = [] then (Inl ImageNotFound, s)
          else
     (case r1 of
        Rejected \<Rightarrow> (Inl InferenceError, s)
      | Choices choices1 \<Rightarrow>
     (case parseIngredients JSON_parse choices1 of
        Inl e \<Rightarrow> (Inl e, s)
      | Inr ingredients \<Rightarrow>
     (case lengthIsZero ingredients of
        Inl e \<Rightarrow> (Inl e, s)
      | Inr True \<Rightarrow> (Inl NoIngredientsIdentified, s)
      | Inr False \<Rightarrow>
     (case joinElements ingredients of
        Inl e \<Rightarrow> (Inl e, s)
      | Inr elements \<Rightarrow>
     (case r2 of
        Rejected \<Rightarrow> (Inl InferenceError, s)
      | Choices choices2 \<Rightarrow>
          runUpdateAnalysis analysisId ingredients
            (parseRecipes JSON_parse elements choices2) Completed s))))))"

text \<open>\<open>processImage\<close>: the \<open>try\<close> block and its \<open>catch\<close>, which records the failure.\<close>

definition processImage ::
  "(jsstring \<Rightarrow> json option) \<Rightarrow> (storageId \<Rightarrow> jsstring option) \<Rightarrow> completion \<Rightarrow> completion \<Rightarrow>
   docId \<Rightarrow> storageId \<Rightarrow> state \<Rightarrow> (error + unit) \<times> state" where
  "processImage JSON_parse getUrl r1 r2 analysisId storageId s =
     (case processImage_try JSON_parse getUrl r1 r2 analysisId storageId s of
        (Inr u, s') \<Rightarrow> (Inr u, s')
      | (Inl e, s') \<Rightarrow> runUpdateAnalysis analysisId (JArr []) (JArr []) Failed s')"

definition getAnalysis ::
  "(storageId \<Rightarrow> jsstring option) \<Rightarrow> userId option \<Rightarrow> docId \<Rightarrow> state \<Rightarrow>
   error + fridgeAnalysis annotated option" where
  "getAnalysis getUrl uid analysisId s =
     (case uid of
        None \<Rightarrow> Inr None
      | Some userId \<Rightarrow>
          (case db_get (fridgeAnalyses s) analysisId of
             None \<Rightarrow> Inr None
           | Some analysis \<Rightarrow>
               if fa_userId analysis \<noteq> userId then Inr None
               else Inr (Some \<lparr>doc_id = analysisId, doc = analysis,
                                imageUrl = getUrl (fa_imageId analysis)\<rparr>)))"

definition getUserAnalyses ::
  "(storageId \<Rightarrow> jsstring option) \<Rightarrow> userId option \<Rightarrow> state \<Rightarrow>
   error + fridgeAnalysis annotated list" where
  "getUserAnalyses getUrl uid s =
     (case uid of
        None \<Rightarrow> Inr []
      | Some userId \<Rightarrow>
          Inr (map (\<lambda>(k, analysis). \<lparr>doc_id = k, doc = analysis,
                                      imageUrl = getUrl (fa_imageId analysis)\<rparr>)
                 (db_query_by_user fa_userId userId 20 (fridgeAnalyses s))))"


section \<open>The recipes module\<close>

text \<open>
  \<open>lines\<close>: the lines of the response that are not blank
  (\<open>content.split('\n').filter(line => line.trim())\<close>).
\<close>

definition contentLines :: "jsstring \<Rightarrow> jsstring list" where
  "contentLines content = filter (\<lambda>line. trim line \<noteq> []) (split_str LF content)"

text \<open>The predicate of \<open>lines.find\<close> that guesses the name.\<close>

definition isNameLine :: "jsstring \<Rightarrow> bool" where
  "isNameLine line \<longleftrightarrow>
     str_includes (toLowerCase line) (js ''recipe'') \<or>
     str_includes (toLowerCase line) (js ''title'') \<or>
     (\<not> str_includes line (js '':'') \<and> length line > 5 \<and> length line < 50)"

text \<open>
  \<open>nameMatch.replace(/recipe:?/i, '')\<close>: the leftmost occurrence of the word, in any
  letter case, is removed, with the colon that follows it if there is one.
\<close>

fun removeRecipeWord :: "jsstring \<Rightarrow> jsstring" where
  "removeRecipeWord [] = []"
| "removeRecipeWord (c # cs) =
     (if prefix (js ''recipe'') (toLowerCase (c # cs))
      then (case drop 6 (c # cs) of
              [] \<Rightarrow> []
            | d # ds \<Rightarrow> if d = 58 then ds else d # ds)
      else c # removeRecipeWord cs)"

text \<open>
  The ingredient rule: the trimmed line starts with a digit, a bullet, a hyphen or an
  asterisk (\<open>/^[\d\<bullet>\-*]/\<close>), or the lowered line includes a unit keyword.
\<close>

definition isMarker :: "jschar \<Rightarrow> bool" where
  "isMarker c \<longleftrightarrow> isDigit c \<or> c = BULLET \<or> c = 45 \<or> c = 42"

definition isIngredientLine :: "jsstring \<Rightarrow> bool" where
  "isIngredientLine line \<longleftrightarrow>
     (case trim line of [] \<Rightarrow> False | c # cs \<Rightarrow> isMarker c) \<or>
     str_includes (toLowerCase line) (js ''cup'') \<or>
     str_includes (toLowerCase line) (js ''tbsp'') \<or>
     str_includes (toLowerCase line) (js ''tsp'')"

text \<open>
  \<open>line.replace(/^[\d\<bullet>\-*.\s]+/, '')\<close>: the longest leading run of digits, bullets,
  hyphens, asterisks, full stops and white space is removed.
\<close>

definition stripMarkers :: "jsstring \<Rightarrow> jsstring" where
  "stripMarkers line = dropWhile (\<lambda>c. isMarker c \<or> c = 46 \<or> isWhiteSpace c) line"

definition extractIngredients :: "jsstring list \<Rightarrow> jsstring list" where
  "extractIngredients lines =
     map (\<lambda>line. trim (stripMarkers line)) (filter isIngredientLine lines)"

text \<open>The instruction rule: a line longer than 20 that includes one of six verbs.\<close>

definition isInstructionLine :: "jsstring \<Rightarrow> bool" where
  "isInstructionLine line \<longleftrightarrow>
     length line > 20 \<and>
     (str_includes line (js ''cook'') \<or> str_includes line (js ''add'') \<or>
      str_includes line (js ''mix'') \<or> str_includes line (js ''heat'') \<or>
      str_includes line (js ''bake'') \<or> str_includes line (js ''stir''))"

definition extractInstructions :: "jsstring list \<Rightarrow> jsstring list" where
  "extractInstructions lines = filter isInstructionLine lines"


text \<open>The skeleton that \<open>recipeData\<close> starts from.\<close>

definition defaultRecipeData :: "(jsstring \<times> json) list" where
  "defaultRecipeData =
     [(js ''name'', JStr (js ''Scanned Recipe'')),
      (js ''ingredients'', JArr []),
      (js ''instructions'', JArr []),
      (js ''cookingTime'', JStr (js ''Unknown'')),
      (js ''servings'', JStr (js ''Unknown'')),
      (js ''difficulty'', JStr (js ''Medium'')),
      (js ''category'', JStr (js ''Other''))]"

text \<open>
  The \<open>catch\<close> branch of the parse in \<open>processRecipeImage\<close>: the name, the ingredients
  (at most 15) and the instructions (at most 10) are taken from the text; a field for
  which nothing is found keeps its default.
\<close>

definition fallbackRecipeData :: "jsstring \<Rightarrow> (jsstring \<times> json) list" where
  "fallbackRecipeData content =
     (let lines = contentLines content;
          d1 = (case find isNameLine lines of
                  None \<Rightarrow> defaultRecipeData
                | Some nameMatch \<Rightarrow>
                    if nameMatch = [] then defaultRecipeData
                    else setProp (js ''name'') (JStr (trim (removeRecipeWord nameMatch)))
                           defaultRecipeData);
          ingredients = extractIngredients lines;
          d2 = (if length ingredients > 0
                then setProp (js ''ingredients'') (JArr (map JStr (take 15 ingredients))) d1
                else d1);
          instructions = extractInstructions lines;
          d3 = (if length instructions > 0
                then setProp (js ''instructions'') (JArr (map JStr (take 10 instructions))) d2
                else d2)
      in d3)"

text \<open>
  The parse of \<open>processRecipeImage\<close>: a parsed value is spread over the skeleton; when
  \<open>JSON.parse\<close> throws, the text is read by the heuristic. As in the fridge module, an
  empty \<open>choices\<close> throws in the \<open>try\<close> and again in the \<open>catch\<close>.
\<close>

definition parseRecipeData ::
  "(jsstring \<Rightarrow> json option) \<Rightarrow> jsstring option list \<Rightarrow> error + (jsstring \<times> json) list" where
  "parseRecipeData JSON_parse choices =
     (case firstContent choices of
        Inl e \<Rightarrow> Inl e
      | Inr None \<Rightarrow> Inr defaultRecipeData
      | Inr (Some content) \<Rightarrow>
          if content = [] then Inr defaultRecipeData
          else (case JSON_parse content of
                  Some parsed \<Rightarrow> Inr (spread defaultRecipeData parsed)
                | None \<Rightarrow> Inr (fallbackRecipeData content)))"

text \<open>
  \<open>recipeData.ingredients.length === 0 && recipeData.instructions.length === 0\<close>; the
  second operand is evaluated only when the first is true, and reading \<open>length\<close> of a
  missing property throws.
\<close>

definition propLengthIsZero :: "(jsstring \<times> json) list \<Rightarrow> jsstring \<Rightarrow> error + bool" where
  "propLengthIsZero kvs k =
     (case getProp kvs k of None \<Rightarrow> Inl TypeError | Some x \<Rightarrow> lengthIsZero x)"

definition nothingExtracted :: "(jsstring \<times> json) list \<Rightarrow> error + bool" where
  "nothingExtracted recipeData =
     (case propLengthIsZero recipeData (js ''ingredients'') of
        Inl e \<Rightarrow> Inl e
      | Inr False \<Rightarrow> Inr False
      | Inr True \<Rightarrow> propLengthIsZero recipeData (js ''instructions''))"

text \<open>The argument \<open>recipeData\<close> of \<open>updateScannedRecipe\<close>, after validation.\<close>

record recipeData =
  rd_name :: jsstring
  rd_ingredients :: "jsstring list"
  rd_instructions :: "jsstring list"
  rd_cookingTime :: "jsstring option"
  rd_servings :: "jsstring option"
  rd_difficulty :: "jsstring option"
  rd_category :: "jsstring option"

definition v_recipeData :: "json \<Rightarrow> recipeData option" where
  "v_recipeData x =
     (case x of
        JObj kvs \<Rightarrow>
          if onlyFields kvs [js ''name'', js ''ingredients'', js ''instructions'',
                             js ''cookingTime'', js ''servings'', js ''difficulty'',
                             js ''category'']
          then do {
            n \<leftarrow> field kvs (js ''name'') v_string;
            i \<leftarrow> field kvs (js ''ingredients'') (v_array v_string);
            t \<leftarrow> field kvs (js ''instructions'') (v_array v_string);
            c \<leftarrow> optionalField kvs (js ''cookingTime'') v_string;
            e \<leftarrow> optionalField kvs (js ''servings'') v_string;
            d \<leftarrow> optionalField kvs (js ''difficulty'') v_string;
            g \<leftarrow> optionalField kvs (js ''category'') v_string;
            Some \<lparr>rd_name = n, rd_ingredients = i, rd_instructions = t,
                  rd_cookingTime = c, rd_servings = e, rd_difficulty = d,
                  rd_category = g\<rparr>
          }
          else None
      | _ \<Rightarrow> None)"

definition scanRecipe :: "userId option \<Rightarrow> storageId \<Rightarrow> state \<Rightarrow> (error + docId) \<times> state" where
  "scanRecipe uid storageId s =
     (case uid of
        None \<Rightarrow> (Inl NotAuthenticated, s)
      | Some userId \<Rightarrow>
          let recipeId = nextId s;
              s1 = s\<lparr>scannedRecipes := scannedRecipes s @
                        [(recipeId, \<lparr>sr_userId = userId, sr_imageId = storageId,
                                     sr_name = [], sr_ingredients = [], sr_instructions = [],
                                     sr_cookingTime = None, sr_servings = None,
                                     sr_difficulty = None, sr_category = None,
                                     scanStatus = Processing\<rparr>)],
                     nextId := Suc (nextId s)\<rparr>;
              s2 = s1\<lparr>scheduled := scheduled s1 @ [ProcessRecipeImage recipeId storageId]\<rparr>
          in (Inr recipeId, s2))"

text \<open>
  The handler of \<open>updateScannedRecipe\<close>: all eight fields are patched; an optional field
  that the argument does not have is patched with \<open>undefined\<close>, which removes it.
\<close>

definition updateScannedRecipe ::
  "docId \<Rightarrow> recipeData \<Rightarrow> status \<Rightarrow> state \<Rightarrow> (error + unit) \<times> state" where
  "updateScannedRecipe recipeId rd st s =
     (case db_patch recipeId
             (\<lambda>d. d\<lparr>sr_name := rd_name rd, sr_ingredients := rd_ingredients rd,
                    sr_instructions := rd_instructions rd,
                    sr_cookingTime := rd_cookingTime rd, sr_servings := rd_servings rd,
                    sr_difficulty := rd_difficulty rd, sr_category := rd_category rd,
                    scanStatus := st\<rparr>)
             (scannedRecipes s) of
        None \<Rightarrow> (Inl NonexistentDocument, s)
      | Some tbl \<Rightarrow> (Inr (), s\<lparr>scannedRecipes := tbl\<rparr>))"

definition runUpdateScannedRecipe ::
  "docId \<Rightarrow> json \<Rightarrow> status \<Rightarrow> state \<Rightarrow> (error + unit) \<times> state" where
  "runUpdateScannedRecipe recipeId recipeData st s =
     (case v_recipeData recipeData of
        None \<Rightarrow> (Inl ArgumentValidationError, s)
      | Some rd \<Rightarrow> updateScannedRecipe recipeId rd st s)"

definition processRecipeImage_try ::
  "(jsstring \<Rightarrow> json option) \<Rightarrow> (storageId \<Rightarrow> jsstring option) \<Rightarrow> completion \<Rightarrow>
   docId \<Rightarrow> storageId \<Rightarrow> state \<Rightarrow> (error + unit) \<times> state" where
  "processRecipeImage_try JSON_parse getUrl r recipeId storageId s =
     (case getUrl storageId of
        None \<Rightarrow> (Inl ImageNotFound, s)
      | Some url \<Rightarrow>
          if url = [] then (Inl ImageNotFound, s)
          else
     (case r of
        Rejected \<Rightarrow> (Inl InferenceError, s)
      | Choices choices \<Rightarrow>
     (case parseRecipeData JSON_parse choices of
        Inl e \<Rightarrow> (Inl e, s)
      | Inr recipeData \<Rightarrow>
     (case nothingExtracted recipeData of
        Inl e \<Rightarrow> (Inl e, s)
      | Inr True \<Rightarrow> (Inl NoRecipeInformation, s)
      | Inr False \<Rightarrow> runUpdateScannedRecipe recipeId (JObj recipeData) Completed s))))"

text \<open>The argument of the \<open>catch\<close> block's mutation.\<close>

definition scanFailedData :: json where
  "scanFailedData =
     JObj [(js ''name'', JStr (js ''Scan Failed'')),
           (js ''ingredients'', JArr []),
           (js ''instructions'', JArr [])]"

definition processRecipeImage ::
  "(jsstring \<Rightarrow> json option) \<Rightarrow> (storageId \<Rightarrow> jsstring option) \<Rightarrow> completion \<Rightarrow>
   docId \<Rightarrow> storageId \<Rightarrow> state \<Rightarrow> (error + unit) \<times> state" where
  "processRecipeImage JSON_parse getUrl r recipeId storageId s =
     (case processRecipeImage_try JSON_parse getUrl r recipeId storageId s of
        (Inr u, s') \<Rightarrow> (Inr u, s')
      | (Inl e, s') \<Rightarrow> runUpdateScannedRecipe recipeId scanFailedData Failed s')"

definition getScannedRecipe ::
  "(storageId \<Rightarrow> jsstring option) \<Rightarrow> userId option \<Rightarrow> docId \<Rightarrow> state \<Rightarrow>
   error + scannedRecipe annotated option" where
  "getScannedRecipe getUrl uid recipeId s =
     (case uid of
        None \<Rightarrow> Inr None
      | Some userId \<Rightarrow>
          (case db_get (scannedRecipes s) recipeId of
             None \<Rightarrow> Inr None
           | Some recipe \<Rightarrow>
               if sr_userId recipe \<noteq> userId then Inr None
               else Inr (Some \<lparr>doc_id = recipeId, doc = recipe,
                                imageUrl = getUrl (sr_imageId recipe)\<rparr>)))"

definition getUserRecipes ::
  "(storageId \<Rightarrow> jsstring option) \<Rightarrow> userId option \<Rightarrow> state \<Rightarrow>
   error + scannedRecipe annotated list" where
  "getUserRecipes getUrl uid s =
     (case uid of
        None \<Rightarrow> Inr []
      | Some userId \<Rightarrow>
          Inr (map (\<lambda>(k, recipe). \<lparr>doc_id = k, doc = recipe,
                                    imageUrl = getUrl (sr_imageId recipe)\<rparr>)
                 (db_query_by_user sr_userId userId 20 (scannedRecipes s))))"

definition deleteRecipe :: "userId option \<Rightarrow> docId \<Rightarrow> state \<Rightarrow> (error + unit) \<times> state" where
  "deleteRecipe uid recipeId s =
     (case uid of
        None \<Rightarrow> (Inl NotAuthenticated, s)
      | Some userId \<Rightarrow>
          (case db_get (scannedRecipes s) recipeId of
             None \<Rightarrow> (Inl NotFoundOrNotAuthorized, s)
           | Some recipe \<Rightarrow>
               if sr_userId recipe \<noteq> userId then (Inl NotFoundOrNotAuthorized, s)
               else (case db_delete recipeId (scannedRecipes s) of
                       None \<Rightarrow> (Inl NonexistentDocument, s)
                     | Some tbl \<Rightarrow> (Inr (), s\<lparr>scannedRecipes := tbl\<rparr>))))"


section \<open>The system\<close>

text \<open>
  What can happen to the store: a client calls a public mutation or a query, or the
  scheduler runs one of the tasks it holds, once, with whatever the object store and the
  inference service answer at that time. A query has no writer, so it does not change
  the state whatever it returns.
\<close>

datatype event =
    EvGenerateUploadUrl "userId option" jsstring
  | EvAnalyzeImage "userId option" storageId
  | EvScanRecipe "userId option" storageId
  | EvDeleteRecipe "userId option" docId
  | EvQuery
  | EvRunTask nat "storageId \<Rightarrow> jsstring option" completion completion

definition runTask ::
  "(jsstring \<Rightarrow> json option) \<Rightarrow> (storageId \<Rightarrow> jsstring option) \<Rightarrow> completion \<Rightarrow> completion \<Rightarrow>
   task \<Rightarrow> state \<Rightarrow> state" where
  "runTask JSON_parse getUrl r1 r2 t s =
     (case t of
        ProcessImage analysisId storageId \<Rightarrow>
          snd (processImage JSON_parse getUrl r1 r2 analysisId storageId s)
      | ProcessRecipeImage recipeId storageId \<Rightarrow>
          snd (processRecipeImage JSON_parse getUrl r1 recipeId storageId s))"

text \<open>The scheduler's list without its \<open>i\<close>-th task.\<close>

definition unschedule :: "nat \<Rightarrow> state \<Rightarrow> state" where
  "unschedule i s = s\<lparr>scheduled := take i (scheduled s) @ drop (Suc i) (scheduled s)\<rparr>"

definition step :: "(jsstring \<Rightarrow> json option) \<Rightarrow> state \<Rightarrow> event \<Rightarrow> state" where
  "step JSON_parse s ev =
     (case ev of
        EvGenerateUploadUrl uid url \<Rightarrow> snd (generateUploadUrl url uid s)
      | EvAnalyzeImage uid storageId \<Rightarrow> snd (analyzeImage uid storageId s)
      | EvScanRecipe uid storageId \<Rightarrow> snd (scanRecipe uid storageId s)
      | EvDeleteRecipe uid recipeId \<Rightarrow> snd (deleteRecipe uid recipeId s)
      | EvQuery \<Rightarrow> s
      | EvRunTask i getUrl r1 r2 \<Rightarrow>
          if i < length (scheduled s)
          then runTask JSON_parse getUrl r1 r2 (scheduled s ! i) (unschedule i s)
          else s)"

fun run :: "(jsstring \<Rightarrow> json option) \<Rightarrow> state \<Rightarrow> event list \<Rightarrow> state" where
  "run JSON_parse s [] = s"
| "run JSON_parse s (ev # evs) = run JSON_parse (step JSON_parse s ev) evs"


section \<open>Definitions used to state the properties\<close>

subsection \<open>Stand-ins for the platform\<close>

text \<open>A parser for response texts that are not JSON: it rejects what it is given.\<close>

definition rejectAll :: "jsstring \<Rightarrow> json option" where
  "rejectAll content = None"

text \<open>
  A parser that knows one JSON text: it reads \<open>[1]\<close> as \<open>JSON.parse\<close> does, as the array
  of the number 1, and rejects every other text. It is applied to that text and to texts
  that are not JSON.
\<close>

definition parseOneNumber :: "jsstring \<Rightarrow> json option" where
  "parseOneNumber content = (if content = js ''[1]'' then Some (JArr [JNum 1]) else None)"

text \<open>An object store that resolves every handle to the same URL.\<close>

definition anyUrl :: "storageId \<Rightarrow> jsstring option" where
  "anyUrl storageId = Some (js ''u'')"

text \<open>An object store that gives each of the handles 0 to 9 a URL of its own.\<close>

definition ownUrl :: "storageId \<Rightarrow> jsstring option" where
  "ownUrl storageId = Some (js ''u'' @ [48 + storageId])"


subsection \<open>The fallbacks and the queries, as the specification words them\<close>

text \<open>
  The first \<open>n\<close> items of a list of lines, written as the loop that the description of
  the fallback suggests: each line is stripped, a line that is empty after stripping is
  skipped, and the loop stops after \<open>n\<close> items.
\<close>

fun firstItems :: "(jsstring \<Rightarrow> jsstring) \<Rightarrow> nat \<Rightarrow> jsstring list \<Rightarrow> jsstring list" where
  "firstItems strip 0 lines = []"
| "firstItems strip (Suc n) [] = []"
| "firstItems strip (Suc n) (line # lines) =
     (let item = strip line
      in if item = [] then firstItems strip (Suc n) lines
         else item # firstItems strip n lines)"

text \<open>
  Stripping "leading bullet/number markers", as the specification words it for the
  fridge fallback: bullets, digits, the full stop of a numbering and the white space
  around them are removed from the start of the line.
\<close>

definition spec_stripListMarker :: "jsstring \<Rightarrow> jsstring" where
  "spec_stripListMarker line =
     trim (dropWhile (\<lambda>c. isBullet c \<or> isDigit c \<or> c = 46 \<or> isWhiteSpace c) line)"

text \<open>The documents of user \<open>u\<close> in a table.\<close>

definition ownedBy :: "('a \<Rightarrow> userId) \<Rightarrow> userId \<Rightarrow> (docId \<times> 'a) list \<Rightarrow> (docId \<times> 'a) list" where
  "ownedBy owner u tbl = filter (\<lambda>(k, d). owner d = u) tbl"

text \<open>
  What a list query has to return for user \<open>u\<close> from a table in which \<open>u\<close> has \<open>n\<close>
  documents: the \<open>min(20, n)\<close> newest of them, newest first. There are \<open>min(20, n)\<close>
  results; with their ids they are documents of \<open>u\<close> in the table, none returned more
  often than the table holds it; their ids descend; each one is owned by \<open>u\<close> and carries
  the URL that the object store gives for its image at the time of the query; and a
  document of \<open>u\<close> that is left out is not newer than any result.
\<close>

definition listing ::
  "('a \<Rightarrow> userId) \<Rightarrow> ('a \<Rightarrow> storageId) \<Rightarrow> (storageId \<Rightarrow> jsstring option) \<Rightarrow> userId \<Rightarrow>
   (docId \<times> 'a) list \<Rightarrow> 'a annotated list \<Rightarrow> bool" where
  "listing owner img getUrl u tbl rs \<longleftrightarrow>
     length rs = min 20 (length (ownedBy owner u tbl)) \<and>
     mset (map (\<lambda>r. (doc_id r, doc r)) rs) \<subseteq># mset (ownedBy owner u tbl) \<and>
     sorted_wrt (\<lambda>x y. doc_id y \<le> doc_id x) rs \<and>
     (\<forall>r \<in> set rs. owner (doc r) = u \<and> (doc_id r, doc r) \<in> set tbl \<and>
                    imageUrl r = getUrl (img (doc r))) \<and>
     (\<forall>(k, d) \<in> set tbl. owner d = u \<and> (\<forall>r \<in> set rs. (k, d) \<noteq> (doc_id r, doc r)) \<longrightarrow>
                         (\<forall>r \<in> set rs. k \<le> doc_id r))"


subsection \<open>The documents that the handlers write\<close>

text \<open>The new documents of \<open>analyzeImage\<close> and \<open>scanRecipe\<close>.\<close>

definition newAnalysis :: "userId \<Rightarrow> storageId \<Rightarrow> fridgeAnalysis" where
  "newAnalysis u sid = \<lparr>fa_userId = u, fa_imageId = sid, fa_ingredients = [], fa_recipes = [],
                        analysisStatus = Processing\<rparr>"

definition newRecipe :: "userId \<Rightarrow> storageId \<Rightarrow> scannedRecipe" where
  "newRecipe u sid = \<lparr>sr_userId = u, sr_imageId = sid,
                                     sr_name = [], sr_ingredients = [], sr_instructions = [],
                                     sr_cookingTime = None, sr_servings = None,
                                     sr_difficulty = None, sr_category = None,
                                     scanStatus = Processing\<rparr>"

text \<open>A document after \<open>updateAnalysis\<close> or \<open>updateScannedRecipe\<close>.\<close>

definition withAnalysis :: "jsstring list \<Rightarrow> recipe list \<Rightarrow> status \<Rightarrow> fridgeAnalysis \<Rightarrow> fridgeAnalysis" where
  "withAnalysis ings rs st d = d\<lparr>fa_ingredients := ings, fa_recipes := rs, analysisStatus := st\<rparr>"

definition withRecipeData :: "recipeData \<Rightarrow> status \<Rightarrow> scannedRecipe \<Rightarrow> scannedRecipe" where
  "withRecipeData rd st d =
     d\<lparr>sr_name := rd_name rd, sr_ingredients := rd_ingredients rd,
       sr_instructions := rd_instructions rd,
       sr_cookingTime := rd_cookingTime rd, sr_servings := rd_servings rd,
       sr_difficulty := rd_difficulty rd, sr_category := rd_category rd,
       scanStatus := st\<rparr>"

text \<open>The validated argument of the \<open>catch\<close> block of \<open>processRecipeImage\<close>.\<close>

definition scanFailed :: recipeData where
  "scanFailed = \<lparr>rd_name = js ''Scan Failed'', rd_ingredients = [], rd_instructions = [],
                 rd_cookingTime = None, rd_servings = None, rd_difficulty = None,
                 rd_category = None\<rparr>"

text \<open>The fallback recipe, as a validated recipe of the table.\<close>

definition stirFry :: "jsstring list \<Rightarrow> recipe" where
  "stirFry ingredients =
     \<lparr>rc_name = js ''Simple Stir Fry'', rc_ingredients = take 4 ingredients,
      rc_instructions = [js ''Heat oil in pan'', js ''Add ingredients'',
                         js ''Stir fry for 5-7 minutes'', js ''Season and serve''],
      rc_cookingTime = js ''15 minutes'', rc_difficulty = js ''Easy''\<rparr>"


subsection \<open>The invariant of the system\<close>

text \<open>
  Ids come from the counter, no document has two tasks, and a task that is still
  scheduled has a document in state \<open>processing\<close>, or for a recipe possibly no document
  any more (it can be deleted before its task runs).
\<close>

fun taskDoc :: "task \<Rightarrow> docId" where
  "taskDoc (ProcessImage analysisId storageId) = analysisId"
| "taskDoc (ProcessRecipeImage recipeId storageId) = recipeId"

definition consistent :: "state \<Rightarrow> bool" where
  "consistent s \<longleftrightarrow>
     (\<forall>k \<in> set (map fst (fridgeAnalyses s)). k < nextId s) \<and>
     (\<forall>k \<in> set (map fst (scannedRecipes s)). k < nextId s) \<and>
     (\<forall>t \<in> set (scheduled s). taskDoc t < nextId s) \<and>
     distinct (map taskDoc (scheduled s)) \<and>
     (\<forall>a sid. ProcessImage a sid \<in> set (scheduled s) \<longrightarrow>
        (\<exists>d. db_get (fridgeAnalyses s) a = Some d \<and> analysisStatus d = Processing)) \<and>
     (\<forall>r sid d. ProcessRecipeImage r sid \<in> set (scheduled s) \<longrightarrow>
        db_get (scannedRecipes s) r = Some d \<longrightarrow> scanStatus d = Processing)"


subsection \<open>States and runs used as examples\<close>

text \<open>A state with one scanned recipe, owned by user 1, and its task.\<close>

definition oneRecipe :: state where
  "oneRecipe = snd (scanRecipe (Some 1) 7 init)"

text \<open>The state after the owner deleted that recipe: its task is still scheduled.\<close>

definition deletedRecipe :: state where
  "deletedRecipe = snd (deleteRecipe (Some 1) 0 oneRecipe)"

text \<open>A state with three analyses: two of user 1, one of user 2.\<close>

definition threeAnalyses :: state where
  "threeAnalyses =
     snd (analyzeImage (Some 1) 9 (snd (analyzeImage (Some 2) 8 (snd (analyzeImage (Some 1) 7 init)))))"

text \<open>That state with three scanned recipes more: two of user 1, one of user 2.\<close>

definition sixDocuments :: state where
  "sixDocuments =
     snd (scanRecipe (Some 1) 6 (snd (scanRecipe (Some 2) 5
       (snd (scanRecipe (Some 1) 4 threeAnalyses)))))"

text \<open>A state with 22 analyses of user 1; the image of analysis \<open>k\<close> has the handle \<open>k + 1\<close>.\<close>

definition manyAnalyses :: state where
  "manyAnalyses =
     fold (\<lambda>sid s. snd (analyzeImage (Some 1) sid s))
       [1, 2, 3, 4, 5, 6, 7, 8, 9, 10, 11, 12, 13, 14, 15, 16, 17, 18, 19, 20, 21, 22] init"

text \<open>A run with one submitted image.\<close>

definition analysisSubmitted :: "event list" where
  "analysisSubmitted = [EvAnalyzeImage (Some 1) 7]"

text \<open>Three runs: two submissions, their two tasks failing, a deletion and a new submission.\<close>

definition submitted :: "event list" where
  "submitted = [EvAnalyzeImage (Some 1) 7, EvScanRecipe (Some 1) 8]"

definition processed :: "event list" where
  "processed = [EvRunTask 0 anyUrl Rejected Rejected, EvRunTask 0 anyUrl Rejected Rejected]"

definition afterwards :: "event list" where
  "afterwards = [EvDeleteRecipe (Some 1) 1, EvAnalyzeImage (Some 2) 9]"


section \<open>Evaluation and basic lemmas\<close>

lemmas string_defs = js_def LF_def BULLET_def isWhiteSpace_def isDigit_def trim_def
  str_includes_def lowerChar_def toLowerCase_def isBullet_def stripBullet_def

lemma firstItems_pipeline:
  "firstItems strip n lines = take n (filter (\<lambda>item. length item > 0) (map strip lines))"
proof (induction lines arbitrary: n)
  case Nil
  then show ?case by (cases n) simp_all
next
  case (Cons line lines)
  then show ?case by (cases n) (simp_all add: Let_def)
qed


section \<open>The fridge fallback for ingredients\<close>

text \<open>
  Claim C3, as amended. When the content of the first response is a text on which
  \<open>JSON.parse\<close> throws, the ingredient list is made of the first 10 non-empty items
  among the lines of the text, where each line loses one leading hyphen, asterisk or
  bullet (only when it is the very first character) with the white space after it, and is
  then trimmed. The list has at most 10 entries. Number markers are not removed.
\<close>

theorem fallback_ingredients_amended:
  assumes "JSON_parse content = None"
  shows "\<exists>items. parseIngredients JSON_parse (Some content # choices) = Inr (JArr (map JStr items)) \<and>
           items = firstItems (\<lambda>line. trim (stripBullet line)) 10 (split_str LF content) \<and>
           length items \<le> 10"
proof (cases "content = []")
  case True
  then show ?thesis
    by (simp add: parseIngredients_def firstContent_def firstItems_pipeline stripBullet_def
        trim_def)
next
  case False
  with assms show ?thesis
    by (simp add: parseIngredients_def firstContent_def fallbackIngredients_def
        firstItems_pipeline)
qed

theorem fallback_ingredients_amended_witness:
  "rejectAll (js ''- eggs'') = None \<and>
   parseIngredients rejectAll [Some (js ''- eggs'')] = Inr (JArr [JStr (js ''eggs'')])"
  using fallback_ingredients_amended [of rejectAll "js ''- eggs''" "[]"]
  by (simp add: rejectAll_def string_defs firstItems_pipeline)

text \<open>
  Claim C3 as stated fails: on the text \<open>1. eggs\<close> the number marker stays in the item,
  while stripping bullet and number markers would leave \<open>eggs\<close>.
\<close>

theorem fallback_ingredients_counterexample:
  "parseIngredients rejectAll [Some (js ''1. eggs'')] = Inr (JArr [JStr (js ''1. eggs'')]) \<and>
   firstItems spec_stripListMarker 10 (split_str LF (js ''1. eggs'')) = [js ''eggs''] \<and>
   parseIngredients rejectAll [Some (js ''1. eggs'')] \<noteq>
     Inr (JArr (map JStr (firstItems spec_stripListMarker 10 (split_str LF (js ''1. eggs'')))))"
  by (simp add: parseIngredients_def firstContent_def fallbackIngredients_def rejectAll_def
      string_defs spec_stripListMarker_def firstItems_pipeline)

section \<open>The record store\<close>

lemma map_of_patch:
  "map_of (patchDoc i f tbl) j =
     (if j = i then map_option f (map_of tbl i) else map_of tbl j)"
  unfolding patchDoc_def by (induction tbl) auto

lemma db_get_patchDoc:
  "db_get (patchDoc i f tbl) j =
     (if j = i then map_option f (db_get tbl i) else db_get tbl j)"
  by (simp add: db_get_def map_of_patch)

lemma keys_patchDoc: "map fst (patchDoc i f tbl) = map fst tbl"
  unfolding patchDoc_def by (induction tbl) auto

lemma map_of_remove:
  "map_of (filter (\<lambda>(k, d). k \<noteq> i) tbl) j = (if j = i then None else map_of tbl j)"
  by (induction tbl) auto

lemma db_get_patch:
  "db_patch i f tbl = Some tbl' \<Longrightarrow>
   db_get tbl' j = (if j = i then map_option f (db_get tbl i) else db_get tbl j)"
  by (auto simp: db_patch_def db_get_def map_of_patch split: option.splits)

lemma db_patch_exists:
  "db_get tbl i = Some d \<Longrightarrow>
   db_patch i f tbl = Some (patchDoc i f tbl)"
  by (simp add: db_patch_def db_get_def)

lemma db_patch_missing: "db_get tbl i = None \<Longrightarrow> db_patch i f tbl = None"
  by (simp add: db_patch_def db_get_def)

lemma db_get_delete:
  "db_delete i tbl = Some tbl' \<Longrightarrow> db_get tbl' j = (if j = i then None else db_get tbl j)"
  by (auto simp: db_delete_def db_get_def map_of_remove split: option.splits)


section \<open>Entry points without a user\<close>

text \<open>
  Claim C9, as amended. When the user identity is absent, the four mutations
  (\<open>generateUploadUrl\<close>, \<open>analyzeImage\<close>, \<open>scanRecipe\<close>, \<open>deleteRecipe\<close>) raise the
  authentication error and leave the state as it was; the four queries do not raise:
  the point lookups return \<open>null\<close> and the list queries return the empty list.
\<close>

theorem unauthenticated_amended:
  "generateUploadUrl url None s = (Inl NotAuthenticated, s) \<and>
   analyzeImage None storageId s = (Inl NotAuthenticated, s) \<and>
   scanRecipe None storageId s = (Inl NotAuthenticated, s) \<and>
   deleteRecipe None i s = (Inl NotAuthenticated, s) \<and>
   getAnalysis getUrl None i s = Inr None \<and>
   getScannedRecipe getUrl None i s = Inr None \<and>
   getUserAnalyses getUrl None s = Inr [] \<and>
   getUserRecipes getUrl None s = Inr []"
  by (simp add: generateUploadUrl_def analyzeImage_def scanRecipe_def deleteRecipe_def
      getAnalysis_def getScannedRecipe_def getUserAnalyses_def getUserRecipes_def)

theorem unauthenticated_amended_witness:
  "analyzeImage None 7 init = (Inl NotAuthenticated, init) \<and>
   getAnalysis anyUrl None 0 init = Inr None"
  using unauthenticated_amended [of "[]" init 7 0 anyUrl] by simp

text \<open>
  Claim C9 as stated fails for the queries: without a user, \<open>getAnalysis\<close> returns
  \<open>null\<close> and \<open>getUserAnalyses\<close> returns the empty list; neither raises.
\<close>

theorem unauthenticated_query_counterexample:
  "getAnalysis anyUrl None 0 init \<noteq> Inl NotAuthenticated \<and>
   getScannedRecipe anyUrl None 0 init \<noteq> Inl NotAuthenticated \<and>
   getUserAnalyses anyUrl None init \<noteq> Inl NotAuthenticated \<and>
   getUserRecipes anyUrl None init \<noteq> Inl NotAuthenticated \<and>
   getAnalysis anyUrl None 0 init = Inr None \<and>
   getUserAnalyses anyUrl None init = Inr []"
  by (simp add: getAnalysis_def getScannedRecipe_def getUserAnalyses_def getUserRecipes_def)


section \<open>Deletion\<close>

text \<open>
  Claim C8. For a caller \<open>u\<close>: when the recipe does not exist or belongs to another
  user, \<open>deleteRecipe\<close> fails with the authorization error and the state is unchanged;
  when it exists and belongs to \<open>u\<close>, the call succeeds, the id is absent afterwards
  (from the table and from \<open>getScannedRecipe\<close>), and nothing else changes. Whoever the
  caller is, a call that fails leaves the state unchanged.
\<close>

theorem deleteRecipe_authorization:
  "((db_get (scannedRecipes s) recipeId = None \<or>
     (\<exists>r. db_get (scannedRecipes s) recipeId = Some r \<and> sr_userId r \<noteq> u)) \<longrightarrow>
      deleteRecipe (Some u) recipeId s = (Inl NotFoundOrNotAuthorized, s)) \<and>
   (\<forall>r. db_get (scannedRecipes s) recipeId = Some r \<and> sr_userId r = u \<longrightarrow>
      (\<exists>s'. deleteRecipe (Some u) recipeId s = (Inr (), s') \<and>
            db_get (scannedRecipes s') recipeId = None \<and>
            getScannedRecipe getUrl (Some u) recipeId s' = Inr None \<and>
            (\<forall>j. j \<noteq> recipeId \<longrightarrow> db_get (scannedRecipes s') j = db_get (scannedRecipes s) j) \<and>
            fridgeAnalyses s' = fridgeAnalyses s \<and> scheduled s' = scheduled s \<and>
            nextId s' = nextId s)) \<and>
   (\<forall>uid e. fst (deleteRecipe uid recipeId s) = Inl e \<longrightarrow>
      snd (deleteRecipe uid recipeId s) = s)"
proof (intro conjI impI allI)
  fix uid e
  assume "fst (deleteRecipe uid recipeId s) = Inl e"
  then show "snd (deleteRecipe uid recipeId s) = s"
    by (auto simp: deleteRecipe_def split: option.splits if_splits)
next
  assume "db_get (scannedRecipes s) recipeId = None \<or>
     (\<exists>r. db_get (scannedRecipes s) recipeId = Some r \<and> sr_userId r \<noteq> u)"
  then show "deleteRecipe (Some u) recipeId s = (Inl NotFoundOrNotAuthorized, s)"
    by (auto simp: deleteRecipe_def)
next
  fix r
  assume r: "db_get (scannedRecipes s) recipeId = Some r \<and> sr_userId r = u"
  then obtain tbl where tbl: "db_delete recipeId (scannedRecipes s) = Some tbl"
    by (auto simp: db_delete_def db_get_def)
  let ?s' = "s\<lparr>scannedRecipes := tbl\<rparr>"
  have "deleteRecipe (Some u) recipeId s = (Inr (), ?s')"
    using r tbl by (simp add: deleteRecipe_def)
  moreover have "db_get (scannedRecipes ?s') j = (if j = recipeId then None else db_get (scannedRecipes s) j)" for j
    using db_get_delete [OF tbl] by simp
  moreover then have "getScannedRecipe getUrl (Some u) recipeId ?s' = Inr None"
    by (simp add: getScannedRecipe_def)
  ultimately show "\<exists>s'. deleteRecipe (Some u) recipeId s = (Inr (), s') \<and>
            db_get (scannedRecipes s') recipeId = None \<and>
            getScannedRecipe getUrl (Some u) recipeId s' = Inr None \<and>
            (\<forall>j. j \<noteq> recipeId \<longrightarrow> db_get (scannedRecipes s') j = db_get (scannedRecipes s) j) \<and>
            fridgeAnalyses s' = fridgeAnalyses s \<and> scheduled s' = scheduled s \<and>
            nextId s' = nextId s"
    by (intro exI [of _ ?s']) simp
qed

theorem deleteRecipe_authorization_witness:
  "db_get (scannedRecipes oneRecipe) 5 = None \<and>
   deleteRecipe (Some 1) 5 oneRecipe = (Inl NotFoundOrNotAuthorized, oneRecipe) \<and>
   (\<exists>r. db_get (scannedRecipes oneRecipe) 0 = Some r \<and> sr_userId r \<noteq> 2) \<and>
   deleteRecipe (Some 2) 0 oneRecipe = (Inl NotFoundOrNotAuthorized, oneRecipe) \<and>
   (\<exists>r. db_get (scannedRecipes oneRecipe) 0 = Some r \<and> sr_userId r = 1) \<and>
   (\<exists>s'. deleteRecipe (Some 1) 0 oneRecipe = (Inr (), s') \<and> db_get (scannedRecipes s') 0 = None)"
proof -
  have a: "db_get (scannedRecipes oneRecipe) 5 = None"
    by (simp add: oneRecipe_def scanRecipe_def init_def db_get_def)
  have b: "\<exists>r. db_get (scannedRecipes oneRecipe) 0 = Some r \<and> sr_userId r \<noteq> 2"
    by (simp add: oneRecipe_def scanRecipe_def init_def db_get_def)
  have c: "\<exists>r. db_get (scannedRecipes oneRecipe) 0 = Some r \<and> sr_userId r = 1"
    by (simp add: oneRecipe_def scanRecipe_def init_def db_get_def)
  from a deleteRecipe_authorization [of oneRecipe 5 1 anyUrl]
  have "deleteRecipe (Some 1) 5 oneRecipe = (Inl NotFoundOrNotAuthorized, oneRecipe)" by blast
  moreover from b deleteRecipe_authorization [of oneRecipe 0 2 anyUrl]
  have "deleteRecipe (Some 2) 0 oneRecipe = (Inl NotFoundOrNotAuthorized, oneRecipe)" by blast
  moreover from c deleteRecipe_authorization [of oneRecipe 0 1 anyUrl]
  have "\<exists>s'. deleteRecipe (Some 1) 0 oneRecipe = (Inr (), s') \<and> db_get (scannedRecipes s') 0 = None"
    by blast
  ultimately show ?thesis using a b c by blast
qed

section \<open>Queries\<close>

lemma query_subset: "set (db_query_by_user owner u n tbl) \<subseteq> {(k, d) \<in> set tbl. owner d = u}"
  by (auto simp: db_query_by_user_def dest: in_set_takeD)

lemma query_length:
  "length (db_query_by_user owner u n tbl) = min n (length (ownedBy owner u tbl))"
  by (simp add: db_query_by_user_def ownedBy_def min.commute)

lemma query_mset:
  "mset (db_query_by_user owner u n tbl) \<subseteq># mset (ownedBy owner u tbl)"
proof -
  let ?xs = "rev (sort_key fst (ownedBy owner u tbl))"
  have "mset (take n ?xs) \<subseteq># mset (take n ?xs) + mset (drop n ?xs)" by simp
  also have "\<dots> = mset ?xs" by (simp only: union_code append_take_drop_id)
  also have "\<dots> = mset (ownedBy owner u tbl)" by simp
  finally show ?thesis by (simp add: db_query_by_user_def ownedBy_def)
qed

lemma query_desc_all:
  "sorted_wrt (\<lambda>x y. fst y \<le> fst x) (rev (sort_key fst xs))"
  using sorted_sort_key [of fst xs]
  by (simp add: sorted_wrt_rev sorted_map)

lemma query_desc: "sorted_wrt (\<lambda>x y. fst y \<le> fst x) (db_query_by_user owner u n tbl)"
  unfolding db_query_by_user_def by (intro sorted_wrt_take query_desc_all)

lemma query_most_recent:
  assumes "(k, d) \<in> set tbl" and "owner d = u"
    and "(k, d) \<notin> set (db_query_by_user owner u n tbl)"
    and "(k', d') \<in> set (db_query_by_user owner u n tbl)"
  shows "k \<le> k'"
proof -
  let ?xs = "rev (sort_key fst (filter (\<lambda>(k, d). owner d = u) tbl))"
  have "sorted_wrt (\<lambda>x y. fst y \<le> fst x) (take n ?xs @ drop n ?xs)"
    using query_desc_all [of "filter (\<lambda>(k, d). owner d = u) tbl"] by simp
  then have *: "\<forall>x \<in> set (take n ?xs). \<forall>y \<in> set (drop n ?xs). fst y \<le> fst x"
    unfolding sorted_wrt_append by blast
  have "(k, d) \<in> set ?xs" using assms(1,2) by simp
  then have "(k, d) \<in> set (take n ?xs) \<union> set (drop n ?xs)"
    by (metis append_take_drop_id set_append)
  with assms(3) have "(k, d) \<in> set (drop n ?xs)" by (simp add: db_query_by_user_def)
  with * assms(4) show ?thesis by (fastforce simp: db_query_by_user_def)
qed

lemma listing_query:
  "listing owner img getUrl u tbl
     (map (\<lambda>(k, d). \<lparr>doc_id = k, doc = d, imageUrl = getUrl (img d)\<rparr>)
        (db_query_by_user owner u 20 tbl))"
proof -
  let ?q = "db_query_by_user owner u 20 tbl"
  let ?f = "\<lambda>(k, d). \<lparr>doc_id = k, doc = d, imageUrl = getUrl (img d)\<rparr>"
  have 1: "length (map ?f ?q) = min 20 (length (ownedBy owner u tbl))"
    by (simp add: query_length)
  have "map (\<lambda>r. (doc_id r, doc r)) (map ?f q) = q" for q
    by (induction q) auto
  then have 2: "mset (map (\<lambda>r. (doc_id r, doc r)) (map ?f ?q)) \<subseteq># mset (ownedBy owner u tbl)"
    by (simp only: query_mset)
  have 3: "sorted_wrt (\<lambda>x y. doc_id y \<le> doc_id x) (map ?f ?q)"
    using query_desc [of owner u 20 tbl]
    by (simp add: sorted_wrt_map case_prod_beta)
  have 4: "\<forall>r \<in> set (map ?f ?q). owner (doc r) = u \<and> (doc_id r, doc r) \<in> set tbl \<and>
                    imageUrl r = getUrl (img (doc r))"
    using query_subset [of owner u 20 tbl] by auto
  have 5: "\<forall>(k, d) \<in> set tbl. owner d = u \<and> (\<forall>r \<in> set (map ?f ?q). (k, d) \<noteq> (doc_id r, doc r)) \<longrightarrow>
                         (\<forall>r \<in> set (map ?f ?q). k \<le> doc_id r)"
  proof -
    have "k \<le> doc_id r"
      if a: "(k, d) \<in> set tbl" "owner d = u"
        and b: "\<forall>r \<in> set (map ?f ?q). (k, d) \<noteq> (doc_id r, doc r)"
        and c: "r \<in> set (map ?f ?q)" for k d r
    proof -
      from c obtain k' d' where q: "(k', d') \<in> set ?q" and r: "r = ?f (k', d')" by auto
      have "(k, d) \<notin> set ?q"
      proof
        assume "(k, d) \<in> set ?q"
        then have "?f (k, d) \<in> set (map ?f ?q)" by (simp only: set_map) (rule imageI)
        with b show False by auto
      qed
      with a q have "k \<le> k'" by (blast intro: query_most_recent)
      with r show ?thesis by simp
    qed
    then show ?thesis by blast
  qed
  from 1 2 3 4 5 show ?thesis unfolding listing_def by blast
qed

text \<open>
  In a table whose ids are distinct, \<open>listing\<close> leaves no choice: two lists that satisfy
  it are the same list.
\<close>

lemma listing_keys:
  assumes "distinct (map fst tbl)" and "listing owner img getUrl u tbl rs"
  shows "distinct (map doc_id rs)"
proof -
  from assms(2) have "mset (map (\<lambda>r. (doc_id r, doc r)) rs) \<subseteq># mset (ownedBy owner u tbl)"
    by (simp add: listing_def)
  then have "image_mset fst (mset (map (\<lambda>r. (doc_id r, doc r)) rs))
      \<subseteq># image_mset fst (mset (ownedBy owner u tbl))"
    by (rule image_mset_subseteq_mono)
  then have "mset (map doc_id rs) \<subseteq># mset (map fst (ownedBy owner u tbl))"
    by (simp add: multiset.map_comp comp_def)
  then obtain C where "mset (map fst (ownedBy owner u tbl)) = mset (map doc_id rs) + C"
    by (auto simp: mset_subset_eq_exists_conv)
  moreover obtain cs where "C = mset cs" by (metis ex_mset)
  ultimately have "mset (map fst (ownedBy owner u tbl)) = mset (map doc_id rs @ cs)" by simp
  moreover have "distinct (map fst (ownedBy owner u tbl))"
    using assms(1) unfolding ownedBy_def by (rule distinct_map_filter)
  ultimately have "distinct (map doc_id rs @ cs)"
    using mset_eq_imp_distinct_iff by blast
  then show ?thesis by simp
qed

lemma listing_keys_subset:
  assumes dk: "distinct (map fst tbl)"
    and L: "listing owner img getUrl u tbl rs"
    and L': "listing owner img getUrl u tbl rs'"
  shows "set (map doc_id rs) \<subseteq> set (map doc_id rs')"
proof (rule ccontr)
  let ?A = "map doc_id rs" and ?B = "map doc_id rs'"
  assume "\<not> set ?A \<subseteq> set ?B"
  then obtain r where r: "r \<in> set rs" "doc_id r \<notin> set ?B" by auto
  have dA: "distinct ?A" and dB: "distinct ?B"
    using dk L L' by (blast intro: listing_keys)+
  have len: "length ?A = length ?B" using L L' by (simp add: listing_def)
  have card: "card (set ?A) = card (set ?B)"
    using dA dB len by (simp only: distinct_card)
  have "\<not> set ?B \<subseteq> set ?A"
  proof
    assume "set ?B \<subseteq> set ?A"
    then have "set ?B = set ?A" using card by (simp add: card_subset_eq)
    with r show False by auto
  qed
  then obtain r' where r': "r' \<in> set rs'" "doc_id r' \<notin> set ?A" by auto
  from L r(1) have o: "owner (doc r) = u" "(doc_id r, doc r) \<in> set tbl"
    by (auto simp: listing_def)
  from L' r'(1) have o': "owner (doc r') = u" "(doc_id r', doc r') \<in> set tbl"
    by (auto simp: listing_def)
  have "\<forall>x \<in> set rs'. (doc_id r, doc r) \<noteq> (doc_id x, doc x)" using r(2) by auto
  with L' o have "\<forall>x \<in> set rs'. doc_id r \<le> doc_id x"
    unfolding listing_def by blast
  with r'(1) have 1: "doc_id r \<le> doc_id r'" by blast
  have "\<forall>x \<in> set rs. (doc_id r', doc r') \<noteq> (doc_id x, doc x)" using r'(2) by auto
  with L o' have "\<forall>x \<in> set rs. doc_id r' \<le> doc_id x"
    unfolding listing_def by blast
  with r(1) have 2: "doc_id r' \<le> doc_id r" by blast
  from 1 2 have "doc_id r = doc_id r'" by simp
  with r(2) r'(1) show False by auto
qed

lemma descending_unique:
  fixes xs ys :: "nat list"
  assumes "sorted_wrt (\<lambda>x y. y \<le> x) xs" "sorted_wrt (\<lambda>x y. y \<le> x) ys"
    and "distinct xs" "distinct ys" "set xs = set ys"
  shows "xs = ys"
proof -
  have "sorted (rev xs)" "sorted (rev ys)"
    using assms(1,2) by (simp_all add: sorted_wrt_rev)
  then have "rev xs = rev ys"
    using assms(3-5) by (intro sorted_distinct_set_unique) simp_all
  then show ?thesis by simp
qed

lemma listing_unique:
  assumes dk: "distinct (map fst tbl)"
    and L: "listing owner img getUrl u tbl rs"
    and L': "listing owner img getUrl u tbl rs'"
  shows "rs = rs'"
proof -
  have keys: "map doc_id rs = map doc_id rs'"
  proof (rule descending_unique)
    show "sorted_wrt (\<lambda>x y. y \<le> x) (map doc_id rs)" "sorted_wrt (\<lambda>x y. y \<le> x) (map doc_id rs')"
      using L L' by (simp_all add: listing_def sorted_wrt_map)
    show "distinct (map doc_id rs)" "distinct (map doc_id rs')"
      using dk L L' by (blast intro: listing_keys)+
    show "set (map doc_id rs) = set (map doc_id rs')"
      using listing_keys_subset [OF dk L L'] listing_keys_subset [OF dk L' L] by blast
  qed
  then have len: "length rs = length rs'" by (metis length_map)
  have "rs ! i = rs' ! i" if i: "i < length rs" for i
  proof -
    from i len have m: "rs ! i \<in> set rs" "rs' ! i \<in> set rs'" by simp_all
    from keys i len have k: "doc_id (rs ! i) = doc_id (rs' ! i)"
      by (metis nth_map)
    from L m(1) have a: "(doc_id (rs ! i), doc (rs ! i)) \<in> set tbl"
      "imageUrl (rs ! i) = getUrl (img (doc (rs ! i)))" by (auto simp: listing_def)
    from L' m(2) have b: "(doc_id (rs' ! i), doc (rs' ! i)) \<in> set tbl"
      "imageUrl (rs' ! i) = getUrl (img (doc (rs' ! i)))" by (auto simp: listing_def)
    from dk a(1) b(1) k have "doc (rs ! i) = doc (rs' ! i)"
      by (metis map_of_is_SomeI option.inject)
    with k a(2) b(2) show ?thesis by simp
  qed
  with len show ?thesis by (simp add: list_eq_iff_nth_eq)
qed

text \<open>
  Claim C7. For an authenticated user \<open>u\<close>, \<open>getAnalysis\<close> and \<open>getScannedRecipe\<close>
  return \<open>null\<close> when the document does not exist and the same \<open>null\<close> when it belongs to
  another user; \<open>getUserAnalyses\<close> and \<open>getUserRecipes\<close> return the documents of \<open>u\<close>
  and no others, newest first: all of them when there are at most 20, and otherwise the
  20 most recent ones; each result carries the URL resolved from its image handle by the
  object store given to the query.
\<close>

theorem queries_owner_only:
  "((db_get (fridgeAnalyses s) i = None \<or>
     (\<exists>a. db_get (fridgeAnalyses s) i = Some a \<and> fa_userId a \<noteq> u)) \<longrightarrow>
      getAnalysis getUrl (Some u) i s = Inr None) \<and>
   ((db_get (scannedRecipes s) i = None \<or>
     (\<exists>r. db_get (scannedRecipes s) i = Some r \<and> sr_userId r \<noteq> u)) \<longrightarrow>
      getScannedRecipe getUrl (Some u) i s = Inr None) \<and>
   (\<exists>rs. getUserAnalyses getUrl (Some u) s = Inr rs \<and>
         listing fa_userId fa_imageId getUrl u (fridgeAnalyses s) rs) \<and>
   (\<exists>rs. getUserRecipes getUrl (Some u) s = Inr rs \<and>
         listing sr_userId sr_imageId getUrl u (scannedRecipes s) rs)"
  by (auto simp: getAnalysis_def getScannedRecipe_def getUserAnalyses_def getUserRecipes_def
      listing_query)

lemma sixDocuments_analyses:
  "fridgeAnalyses sixDocuments =
     [(0, newAnalysis 1 7), (1, newAnalysis 2 8), (2, newAnalysis 1 9)]"
  by (simp add: sixDocuments_def threeAnalyses_def analyzeImage_def scanRecipe_def init_def
      Let_def newAnalysis_def)

lemma sixDocuments_recipes:
  "scannedRecipes sixDocuments =
     [(3, newRecipe 1 4), (4, newRecipe 2 5), (5, newRecipe 1 6)]"
  by (simp add: sixDocuments_def threeAnalyses_def analyzeImage_def scanRecipe_def init_def
      Let_def newRecipe_def)

lemma manyAnalyses_analyses:
  "fridgeAnalyses manyAnalyses =
     map (\<lambda>k. (k, newAnalysis 1 (Suc k)))
       [0, 1, 2, 3, 4, 5, 6, 7, 8, 9, 10, 11, 12, 13, 14, 15, 16, 17, 18, 19, 20, 21]"
  by (simp add: manyAnalyses_def analyzeImage_def init_def Let_def newAnalysis_def)

theorem queries_owner_only_witness:
  "db_get (fridgeAnalyses sixDocuments) 9 = None \<and>
   getAnalysis ownUrl (Some 1) 9 sixDocuments = Inr None \<and>
   (\<exists>a. db_get (fridgeAnalyses sixDocuments) 1 = Some a \<and> fa_userId a \<noteq> 1) \<and>
   getAnalysis ownUrl (Some 1) 1 sixDocuments = Inr None \<and>
   db_get (scannedRecipes sixDocuments) 9 = None \<and>
   getScannedRecipe ownUrl (Some 1) 9 sixDocuments = Inr None \<and>
   (\<exists>r. db_get (scannedRecipes sixDocuments) 4 = Some r \<and> sr_userId r \<noteq> 1) \<and>
   getScannedRecipe ownUrl (Some 1) 4 sixDocuments = Inr None \<and>
   getUserAnalyses ownUrl (Some 1) sixDocuments =
     Inr [\<lparr>doc_id = 2, doc = newAnalysis 1 9, imageUrl = Some (js ''u9'')\<rparr>,
          \<lparr>doc_id = 0, doc = newAnalysis 1 7, imageUrl = Some (js ''u7'')\<rparr>] \<and>
   listing fa_userId fa_imageId ownUrl 1 (fridgeAnalyses sixDocuments)
     [\<lparr>doc_id = 2, doc = newAnalysis 1 9, imageUrl = Some (js ''u9'')\<rparr>,
      \<lparr>doc_id = 0, doc = newAnalysis 1 7, imageUrl = Some (js ''u7'')\<rparr>] \<and>
   getUserRecipes ownUrl (Some 1) sixDocuments =
     Inr [\<lparr>doc_id = 5, doc = newRecipe 1 6, imageUrl = Some (js ''u6'')\<rparr>,
          \<lparr>doc_id = 3, doc = newRecipe 1 4, imageUrl = Some (js ''u4'')\<rparr>] \<and>
   listing sr_userId sr_imageId ownUrl 1 (scannedRecipes sixDocuments)
     [\<lparr>doc_id = 5, doc = newRecipe 1 6, imageUrl = Some (js ''u6'')\<rparr>,
      \<lparr>doc_id = 3, doc = newRecipe 1 4, imageUrl = Some (js ''u4'')\<rparr>] \<and>
   (\<exists>rs. getUserAnalyses anyUrl (Some 1) manyAnalyses = Inr rs \<and>
         map doc_id rs =
           [21, 20, 19, 18, 17, 16, 15, 14, 13, 12, 11, 10, 9, 8, 7, 6, 5, 4, 3, 2] \<and>
         listing fa_userId fa_imageId anyUrl 1 (fridgeAnalyses manyAnalyses) rs)"
proof -
  have a: "db_get (fridgeAnalyses sixDocuments) 9 = None"
    by (simp add: sixDocuments_analyses db_get_def)
  have b: "\<exists>a. db_get (fridgeAnalyses sixDocuments) 1 = Some a \<and> fa_userId a \<noteq> 1"
    by (simp add: sixDocuments_analyses db_get_def newAnalysis_def)
  have c: "db_get (scannedRecipes sixDocuments) 9 = None"
    by (simp add: sixDocuments_recipes db_get_def)
  have d: "\<exists>r. db_get (scannedRecipes sixDocuments) 4 = Some r \<and> sr_userId r \<noteq> 1"
    by (simp add: sixDocuments_recipes db_get_def newRecipe_def)
  have e: "getUserAnalyses ownUrl (Some 1) sixDocuments =
     Inr [\<lparr>doc_id = 2, doc = newAnalysis 1 9, imageUrl = Some (js ''u9'')\<rparr>,
          \<lparr>doc_id = 0, doc = newAnalysis 1 7, imageUrl = Some (js ''u7'')\<rparr>]"
    by (simp add: getUserAnalyses_def sixDocuments_analyses db_query_by_user_def
        newAnalysis_def ownUrl_def js_def)
  have f: "getUserRecipes ownUrl (Some 1) sixDocuments =
     Inr [\<lparr>doc_id = 5, doc = newRecipe 1 6, imageUrl = Some (js ''u6'')\<rparr>,
          \<lparr>doc_id = 3, doc = newRecipe 1 4, imageUrl = Some (js ''u4'')\<rparr>]"
    by (simp add: getUserRecipes_def sixDocuments_recipes db_query_by_user_def
        newRecipe_def ownUrl_def js_def)
  have g: "\<exists>rs. getUserAnalyses anyUrl (Some 1) manyAnalyses = Inr rs \<and>
         map doc_id rs =
           [21, 20, 19, 18, 17, 16, 15, 14, 13, 12, 11, 10, 9, 8, 7, 6, 5, 4, 3, 2]"
    by (simp add: getUserAnalyses_def manyAnalyses_analyses db_query_by_user_def
        newAnalysis_def)
  from a queries_owner_only [of sixDocuments 9 1 ownUrl]
  have 1: "getAnalysis ownUrl (Some 1) 9 sixDocuments = Inr None" by blast
  from b queries_owner_only [of sixDocuments 1 1 ownUrl]
  have 2: "getAnalysis ownUrl (Some 1) 1 sixDocuments = Inr None" by blast
  from c queries_owner_only [of sixDocuments 9 1 ownUrl]
  have 3: "getScannedRecipe ownUrl (Some 1) 9 sixDocuments = Inr None" by blast
  from d queries_owner_only [of sixDocuments 4 1 ownUrl]
  have 4: "getScannedRecipe ownUrl (Some 1) 4 sixDocuments = Inr None" by blast
  from e queries_owner_only [of sixDocuments 0 1 ownUrl]
  have 5: "listing fa_userId fa_imageId ownUrl 1 (fridgeAnalyses sixDocuments)
     [\<lparr>doc_id = 2, doc = newAnalysis 1 9, imageUrl = Some (js ''u9'')\<rparr>,
      \<lparr>doc_id = 0, doc = newAnalysis 1 7, imageUrl = Some (js ''u7'')\<rparr>]"
    by auto
  from f queries_owner_only [of sixDocuments 0 1 ownUrl]
  have 6: "listing sr_userId sr_imageId ownUrl 1 (scannedRecipes sixDocuments)
     [\<lparr>doc_id = 5, doc = newRecipe 1 6, imageUrl = Some (js ''u6'')\<rparr>,
      \<lparr>doc_id = 3, doc = newRecipe 1 4, imageUrl = Some (js ''u4'')\<rparr>]"
    by auto
  from g queries_owner_only [of manyAnalyses 0 1 anyUrl]
  have 7: "\<exists>rs. getUserAnalyses anyUrl (Some 1) manyAnalyses = Inr rs \<and>
         map doc_id rs =
           [21, 20, 19, 18, 17, 16, 15, 14, 13, 12, 11, 10, 9, 8, 7, 6, 5, 4, 3, 2] \<and>
         listing fa_userId fa_imageId anyUrl 1 (fridgeAnalyses manyAnalyses) rs"
    by auto
  from a 1 b 2 c 3 d 4 e 5 f 6 7 show ?thesis by (intro conjI)
qed

section \<open>Lines, keywords and the heuristic's result\<close>

lemma in_set_dropWhile: "x \<in> set xs \<Longrightarrow> \<not> P x \<Longrightarrow> x \<in> set (dropWhile P xs)"
  by (induction xs) auto

lemma trim_nonempty:
  assumes "c \<in> set s" and "\<not> isWhiteSpace c"
  shows "trim s \<noteq> []"
proof -
  from assms have "c \<in> set (rev (dropWhile isWhiteSpace s))"
    by (simp add: in_set_dropWhile)
  with assms(2) have "c \<in> set (dropWhile isWhiteSpace (rev (dropWhile isWhiteSpace s)))"
    by (blast intro: in_set_dropWhile)
  then have "dropWhile isWhiteSpace (rev (dropWhile isWhiteSpace s)) \<noteq> []"
    by (metis empty_iff empty_set)
  then show ?thesis by (simp add: trim_def)
qed

lemma includes_lowered_nonblank:
  assumes "str_includes (toLowerCase line) (k # ks)" and "\<not> isWhiteSpace k" and "k < 65 \<or> 90 < k"
  shows "trim line \<noteq> []"
proof -
  from assms(1) have "k \<in> set (toLowerCase line)"
    using set_mono_sublist [of "k # ks" "toLowerCase line"] by (auto simp: str_includes_def)
  then obtain c where c: "c \<in> set line" "lowerChar c = k"
    by (auto simp: toLowerCase_def)
  have "\<not> isWhiteSpace c"
  proof (cases "65 \<le> c \<and> c \<le> 90")
    case True
    then show ?thesis by (auto simp: isWhiteSpace_def)
  next
    case False
    with c(2) assms(2) show ?thesis by (simp add: lowerChar_def)
  qed
  with c(1) show ?thesis by (rule trim_nonempty)
qed

lemma includes_nonblank:
  assumes "str_includes line (k # ks)" and "\<not> isWhiteSpace k"
  shows "trim line \<noteq> []"
proof -
  from assms(1) have "k \<in> set line"
    using set_mono_sublist [of "k # ks" line] by (auto simp: str_includes_def)
  then show ?thesis using assms(2) by (rule trim_nonempty)
qed

lemma isIngredientLine_nonblank: "isIngredientLine line \<Longrightarrow> trim line \<noteq> []"
  unfolding isIngredientLine_def
  by (auto simp: js_def isWhiteSpace_def dest!: includes_lowered_nonblank split: list.splits)

lemma isInstructionLine_nonblank: "isInstructionLine line \<Longrightarrow> trim line \<noteq> []"
  unfolding isInstructionLine_def
  by (auto simp: js_def isWhiteSpace_def dest!: includes_nonblank)

lemma includes_toLowerCase:
  "str_includes line w \<Longrightarrow> str_includes (toLowerCase line) (toLowerCase w)"
  by (simp add: str_includes_def toLowerCase_def map_mono_sublist)

lemma those_v_string: "those (map (\<lambda>x. v_string (JStr x)) xs) = Some xs"
  by (induction xs) (simp_all add: v_string_def)

lemma v_array_strings: "v_array v_string (JArr (map JStr xs)) = Some xs"
  by (simp add: v_array_def those_v_string comp_def)

lemma fallbackRecipeData_shape:
  "\<exists>n. fallbackRecipeData content =
     [(js ''name'', JStr n),
      (js ''ingredients'', JArr (map JStr (take 15 (extractIngredients (contentLines content))))),
      (js ''instructions'', JArr (map JStr (take 10 (extractInstructions (contentLines content))))),
      (js ''cookingTime'', JStr (js ''Unknown'')),
      (js ''servings'', JStr (js ''Unknown'')),
      (js ''difficulty'', JStr (js ''Medium'')),
      (js ''category'', JStr (js ''Other''))]"
  by (simp add: fallbackRecipeData_def Let_def defaultRecipeData_def js_def split: option.splits)

section \<open>The background tasks\<close>

lemma updateAnalysis_missing:
  "db_get (fridgeAnalyses s) a = None \<Longrightarrow>
   updateAnalysis a ings rs st s = (Inl NonexistentDocument, s)"
  by (simp add: updateAnalysis_def db_patch_missing)

lemma updateAnalysis_exists:
  "db_get (fridgeAnalyses s) a = Some d \<Longrightarrow>
   updateAnalysis a ings rs st s =
     (Inr (), s\<lparr>fridgeAnalyses :=
        patchDoc a (withAnalysis ings rs st) (fridgeAnalyses s)\<rparr>)"
  by (simp add: updateAnalysis_def db_patch_exists withAnalysis_def [abs_def])

lemma updateScannedRecipe_missing:
  "db_get (scannedRecipes s) a = None \<Longrightarrow>
   updateScannedRecipe a rd st s = (Inl NonexistentDocument, s)"
  by (simp add: updateScannedRecipe_def db_patch_missing)

lemma updateScannedRecipe_exists:
  "db_get (scannedRecipes s) a = Some d \<Longrightarrow>
   updateScannedRecipe a rd st s =
     (Inr (), s\<lparr>scannedRecipes :=
        patchDoc a (withRecipeData rd st) (scannedRecipes s)\<rparr>)"
  by (simp add: updateScannedRecipe_def db_patch_exists withRecipeData_def [abs_def])

lemma those_nonempty: "those xs = Some ys \<Longrightarrow> length ys = length xs"
  by (induction xs arbitrary: ys) (auto split: option.splits)

lemma v_array_length: "v_array v (JArr xs) = Some ys \<Longrightarrow> length ys = length xs"
  by (auto simp: v_array_def dest: those_nonempty)

text \<open>The try block either throws with the state untouched, or has stored a completed
  analysis with at least one ingredient.\<close>

lemma processImage_try_cases:
  "(\<exists>e. processImage_try P g r1 r2 a sid s = (Inl e, s)) \<or>
   (\<exists>d ings rs. ings \<noteq> [] \<and> db_get (fridgeAnalyses s) a = Some d \<and>
      processImage_try P g r1 r2 a sid s =
        (Inr (), s\<lparr>fridgeAnalyses :=
           patchDoc a (withAnalysis ings rs Completed) (fridgeAnalyses s)\<rparr>))"
proof (cases "db_get (fridgeAnalyses s) a")
  case None
  then show ?thesis
    by (auto simp: processImage_try_def runUpdateAnalysis_def updateAnalysis_missing
        split: option.splits completion.splits sum.splits bool.splits)
next
  case (Some d)
  have upd: "(\<exists>e. runUpdateAnalysis a x y Completed s = (Inl e, s)) \<or>
      (\<exists>ings rs. ings \<noteq> [] \<and> runUpdateAnalysis a x y Completed s =
        (Inr (), s\<lparr>fridgeAnalyses :=
           patchDoc a (withAnalysis ings rs Completed) (fridgeAnalyses s)\<rparr>))"
    if "lengthIsZero x = Inr False" for x y
  proof (cases "v_array v_string x")
    case None
    then show ?thesis by (simp add: runUpdateAnalysis_def)
  next
    case i: (Some ings)
    then obtain xs where xs: "x = JArr xs" by (auto simp: v_array_def split: json.splits)
    with that have "xs \<noteq> []" by (simp add: lengthIsZero_def)
    with i xs have "ings \<noteq> []" using v_array_length by fastforce
    then show ?thesis using i Some
      by (cases "v_array v_recipe y") (auto simp: runUpdateAnalysis_def updateAnalysis_exists)
  qed
  show ?thesis
    unfolding processImage_try_def
    using upd Some
    by (auto split: option.splits completion.splits sum.splits bool.splits)
qed

lemma runUpdateAnalysis_failed:
  "runUpdateAnalysis a (JArr []) (JArr []) Failed s = updateAnalysis a [] [] Failed s"
  by (simp add: runUpdateAnalysis_def v_array_def)

lemma processImage_missing:
  assumes "db_get (fridgeAnalyses s) a = None"
  shows "processImage P g r1 r2 a sid s = (Inl NonexistentDocument, s)"
  using processImage_try_cases [of P g r1 r2 a sid s] assms
  by (auto simp: processImage_def runUpdateAnalysis_failed updateAnalysis_missing)

lemma processImage_cases:
  assumes "db_get (fridgeAnalyses s) a = Some d"
  shows "(\<exists>e. processImage_try P g r1 r2 a sid s = (Inl e, s) \<and>
            processImage P g r1 r2 a sid s =
              (Inr (), s\<lparr>fridgeAnalyses := patchDoc a (withAnalysis [] [] Failed) (fridgeAnalyses s)\<rparr>)) \<or>
         (\<exists>ings rs. ings \<noteq> [] \<and>
            processImage_try P g r1 r2 a sid s =
              (Inr (), s\<lparr>fridgeAnalyses := patchDoc a (withAnalysis ings rs Completed) (fridgeAnalyses s)\<rparr>) \<and>
            processImage P g r1 r2 a sid s =
              (Inr (), s\<lparr>fridgeAnalyses := patchDoc a (withAnalysis ings rs Completed) (fridgeAnalyses s)\<rparr>))"
proof -
  from processImage_try_cases [of P g r1 r2 a sid s]
  consider (fail) e where "processImage_try P g r1 r2 a sid s = (Inl e, s)"
    | (ok) ings rs where "ings \<noteq> []"
        "processImage_try P g r1 r2 a sid s =
           (Inr (), s\<lparr>fridgeAnalyses := patchDoc a (withAnalysis ings rs Completed) (fridgeAnalyses s)\<rparr>)"
    by blast
  then show ?thesis
  proof cases
    case fail
    with assms show ?thesis
      by (simp add: processImage_def runUpdateAnalysis_failed updateAnalysis_exists)
  next
    case ok
    then have "processImage P g r1 r2 a sid s =
        (Inr (), s\<lparr>fridgeAnalyses := patchDoc a (withAnalysis ings rs Completed) (fridgeAnalyses s)\<rparr>)"
      by (simp add: processImage_def)
    with ok show ?thesis by blast
  qed
qed

lemma processRecipeImage_try_cases:
  "(\<exists>e. processRecipeImage_try P g r a sid s = (Inl e, s)) \<or>
   (\<exists>d rd. db_get (scannedRecipes s) a = Some d \<and>
      processRecipeImage_try P g r a sid s =
        (Inr (), s\<lparr>scannedRecipes := patchDoc a (withRecipeData rd Completed) (scannedRecipes s)\<rparr>))"
proof (cases "db_get (scannedRecipes s) a")
  case None
  then show ?thesis
    by (auto simp: processRecipeImage_try_def runUpdateScannedRecipe_def updateScannedRecipe_missing
        split: option.splits completion.splits sum.splits bool.splits)
next
  case (Some d)
  then show ?thesis
    by (auto simp: processRecipeImage_try_def runUpdateScannedRecipe_def updateScannedRecipe_exists
        split: option.splits completion.splits sum.splits bool.splits)
qed

lemma v_recipeData_scanFailed: "v_recipeData scanFailedData = Some scanFailed"
  by (simp add: v_recipeData_def scanFailedData_def scanFailed_def onlyFields_def field_def
      optionalField_def getProp_def v_string_def v_array_def js_def)

lemma processRecipeImage_missing:
  assumes "db_get (scannedRecipes s) a = None"
  shows "processRecipeImage P g r a sid s = (Inl NonexistentDocument, s)"
  using processRecipeImage_try_cases [of P g r a sid s] assms
  by (auto simp: processRecipeImage_def runUpdateScannedRecipe_def v_recipeData_scanFailed
      updateScannedRecipe_missing)

lemma processRecipeImage_cases:
  assumes "db_get (scannedRecipes s) a = Some d"
  shows "(\<exists>e. processRecipeImage_try P g r a sid s = (Inl e, s) \<and>
            processRecipeImage P g r a sid s =
              (Inr (), s\<lparr>scannedRecipes := patchDoc a (withRecipeData scanFailed Failed) (scannedRecipes s)\<rparr>)) \<or>
         (\<exists>rd. processRecipeImage_try P g r a sid s =
              (Inr (), s\<lparr>scannedRecipes := patchDoc a (withRecipeData rd Completed) (scannedRecipes s)\<rparr>) \<and>
            processRecipeImage P g r a sid s =
              (Inr (), s\<lparr>scannedRecipes := patchDoc a (withRecipeData rd Completed) (scannedRecipes s)\<rparr>))"
proof -
  from processRecipeImage_try_cases [of P g r a sid s]
  consider (fail) e where "processRecipeImage_try P g r a sid s = (Inl e, s)"
    | (ok) rd where
        "processRecipeImage_try P g r a sid s =
           (Inr (), s\<lparr>scannedRecipes := patchDoc a (withRecipeData rd Completed) (scannedRecipes s)\<rparr>)"
    by blast
  then show ?thesis
  proof cases
    case fail
    with assms show ?thesis
      by (simp add: processRecipeImage_def runUpdateScannedRecipe_def v_recipeData_scanFailed
          updateScannedRecipe_exists)
  next
    case ok
    then have "processRecipeImage P g r a sid s =
        (Inr (), s\<lparr>scannedRecipes := patchDoc a (withRecipeData rd Completed) (scannedRecipes s)\<rparr>)"
      by (simp add: processRecipeImage_def)
    with ok show ?thesis by blast
  qed
qed

section \<open>The invariant of the system\<close>

lemma step_cases:
  obtains
    (same) "step P s ev = s"
  | (analyze) u sid where
      "step P s ev = s\<lparr>fridgeAnalyses := fridgeAnalyses s @ [(nextId s, newAnalysis u sid)],
                       nextId := Suc (nextId s),
                       scheduled := scheduled s @ [ProcessImage (nextId s) sid]\<rparr>"
  | (scan) u sid where
      "step P s ev = s\<lparr>scannedRecipes := scannedRecipes s @ [(nextId s, newRecipe u sid)],
                       nextId := Suc (nextId s),
                       scheduled := scheduled s @ [ProcessRecipeImage (nextId s) sid]\<rparr>"
  | (delete) i where
      "step P s ev = s\<lparr>scannedRecipes := filter (\<lambda>(k, d). k \<noteq> i) (scannedRecipes s)\<rparr>"
  | (dropped) i where "i < length (scheduled s)" "step P s ev = unschedule i s"
      "\<forall>a sid. scheduled s ! i = ProcessImage a sid \<longrightarrow> db_get (fridgeAnalyses s) a = None"
      "\<forall>a sid. scheduled s ! i = ProcessRecipeImage a sid \<longrightarrow> db_get (scannedRecipes s) a = None"
  | (analysed) i a sid ings rs st where "i < length (scheduled s)"
      "scheduled s ! i = ProcessImage a sid" "st \<noteq> Processing"
      "step P s ev = (unschedule i s)\<lparr>fridgeAnalyses :=
          patchDoc a (withAnalysis ings rs st) (fridgeAnalyses s)\<rparr>"
  | (scanned) i a sid rd st where "i < length (scheduled s)"
      "scheduled s ! i = ProcessRecipeImage a sid" "st \<noteq> Processing"
      "step P s ev = (unschedule i s)\<lparr>scannedRecipes :=
          patchDoc a (withRecipeData rd st) (scannedRecipes s)\<rparr>"
proof (cases ev)
  case (EvGenerateUploadUrl uid url)
  then have "step P s ev = s"
    by (simp add: step_def generateUploadUrl_def split: option.splits)
  then show ?thesis by (rule same)
next
  case (EvAnalyzeImage uid sid)
  show ?thesis
  proof (cases uid)
    case None
    with EvAnalyzeImage have "step P s ev = s" by (simp add: step_def analyzeImage_def)
    then show ?thesis by (rule same)
  next
    case (Some u)
    with EvAnalyzeImage show ?thesis
      by (intro analyze [where u=u and sid=sid]) (simp add: step_def analyzeImage_def Let_def newAnalysis_def)
  qed
next
  case (EvScanRecipe uid sid)
  show ?thesis
  proof (cases uid)
    case None
    with EvScanRecipe have "step P s ev = s" by (simp add: step_def scanRecipe_def)
    then show ?thesis by (rule same)
  next
    case (Some u)
    with EvScanRecipe show ?thesis
      by (intro scan [where u=u and sid=sid]) (simp add: step_def scanRecipe_def Let_def newRecipe_def)
  qed
next
  case (EvDeleteRecipe uid i)
  then have "step P s ev = s \<or>
      step P s ev = s\<lparr>scannedRecipes := filter (\<lambda>(k, d). k \<noteq> i) (scannedRecipes s)\<rparr>"
    by (auto simp: step_def deleteRecipe_def db_delete_def split: option.splits)
  then show ?thesis using same delete by blast
next
  case EvQuery
  then have "step P s ev = s" by (simp add: step_def)
  then show ?thesis by (rule same)
next
  case (EvRunTask i g r1 r2)
  show ?thesis
  proof (cases "i < length (scheduled s)")
    case False
    with EvRunTask have "step P s ev = s" by (simp add: step_def)
    then show ?thesis by (rule same)
  next
    case True
    note i = this
    have st: "step P s ev = runTask P g r1 r2 (scheduled s ! i) (unschedule i s)"
      using EvRunTask True by (simp add: step_def unschedule_def)
    show ?thesis
    proof (cases "scheduled s ! i")
      case (ProcessImage a sid)
      show ?thesis
      proof (cases "db_get (fridgeAnalyses s) a")
        case None
        then have "db_get (fridgeAnalyses (unschedule i s)) a = None" by (simp add: unschedule_def)
        then have "step P s ev = unschedule i s"
          using st ProcessImage by (simp add: runTask_def processImage_missing)
        with i show ?thesis using ProcessImage None by (intro dropped [where i=i]) auto
      next
        case (Some d)
        then have "db_get (fridgeAnalyses (unschedule i s)) a = Some d" by (simp add: unschedule_def)
        from processImage_cases [OF this, of P g r1 r2 sid]
        obtain ings rs st' where "st' \<noteq> Processing"
          "processImage P g r1 r2 a sid (unschedule i s) =
             (Inr (), (unschedule i s)\<lparr>fridgeAnalyses :=
                 patchDoc a (withAnalysis ings rs st') (fridgeAnalyses (unschedule i s))\<rparr>)"
          by (metis status.distinct(1,3))
        then have "step P s ev = (unschedule i s)\<lparr>fridgeAnalyses :=
            patchDoc a (withAnalysis ings rs st') (fridgeAnalyses s)\<rparr>"
          using st ProcessImage by (simp add: runTask_def unschedule_def)
        with i ProcessImage \<open>st' \<noteq> Processing\<close> show ?thesis by (intro analysed [where i=i and a=a and sid=sid and st=st' and ings=ings and rs=rs])
      qed
    next
      case (ProcessRecipeImage a sid)
      show ?thesis
      proof (cases "db_get (scannedRecipes s) a")
        case None
        then have "db_get (scannedRecipes (unschedule i s)) a = None" by (simp add: unschedule_def)
        then have "step P s ev = unschedule i s"
          using st ProcessRecipeImage by (simp add: runTask_def processRecipeImage_missing)
        with i show ?thesis using ProcessRecipeImage None by (intro dropped [where i=i]) auto
      next
        case (Some d)
        then have "db_get (scannedRecipes (unschedule i s)) a = Some d" by (simp add: unschedule_def)
        from processRecipeImage_cases [OF this, of P g r1 sid]
        obtain rd st' where "st' \<noteq> Processing"
          "processRecipeImage P g r1 a sid (unschedule i s) =
             (Inr (), (unschedule i s)\<lparr>scannedRecipes :=
                 patchDoc a (withRecipeData rd st') (scannedRecipes (unschedule i s))\<rparr>)"
          by (metis status.distinct(1,3))
        then have "step P s ev = (unschedule i s)\<lparr>scannedRecipes :=
            patchDoc a (withRecipeData rd st') (scannedRecipes s)\<rparr>"
          using st ProcessRecipeImage by (simp add: runTask_def unschedule_def)
        with i ProcessRecipeImage \<open>st' \<noteq> Processing\<close> show ?thesis by (intro scanned [where i=i and a=a and sid=sid and st=st' and rd=rd])
      qed
    qed
  qed
qed

lemma db_get_None_iff: "db_get tbl i = None \<longleftrightarrow> i \<notin> set (map fst tbl)"
  by (simp add: db_get_def map_of_eq_None_iff)

lemma db_get_append:
  "db_get (tbl @ [(n, x)]) i =
     (case db_get tbl i of Some d \<Rightarrow> Some d | None \<Rightarrow> if i = n then Some x else None)"
  by (auto simp: db_get_def map_add_def split: option.splits)

lemma db_get_remove:
  "db_get (filter (\<lambda>(k, d). k \<noteq> i) tbl) j = (if j = i then None else db_get tbl j)"
  by (simp add: db_get_def map_of_remove)

lemma keys_remove: "set (map fst (filter (\<lambda>(k, d). k \<noteq> i) tbl)) \<subseteq> set (map fst tbl)"
  by auto

lemma scheduled_unschedule_subset: "set (scheduled (unschedule i s)) \<subseteq> set (scheduled s)"
  by (auto simp: unschedule_def dest: in_set_takeD in_set_dropD)

lemma unschedule_fields [simp]:
  "fridgeAnalyses (unschedule i s) = fridgeAnalyses s"
  "scannedRecipes (unschedule i s) = scannedRecipes s"
  "nextId (unschedule i s) = nextId s"
  by (simp_all add: unschedule_def)

lemma unschedule_distinct:
  assumes "distinct (map taskDoc (scheduled s))" and "i < length (scheduled s)"
  shows "distinct (map taskDoc (scheduled (unschedule i s)))"
    and "\<forall>t \<in> set (scheduled (unschedule i s)). taskDoc t \<noteq> taskDoc (scheduled s ! i)"
proof -
  let ?xs = "scheduled s"
  have "?xs = take i ?xs @ ?xs ! i # drop (Suc i) ?xs"
    using assms(2) by (rule id_take_nth_drop)
  then have "distinct (map taskDoc (take i ?xs @ ?xs ! i # drop (Suc i) ?xs))"
    using assms(1) by simp
  then show "distinct (map taskDoc (scheduled (unschedule i s)))"
    and "\<forall>t \<in> set (scheduled (unschedule i s)). taskDoc t \<noteq> taskDoc (scheduled s ! i)"
    by (auto simp: unschedule_def image_iff)
qed

lemma inv_init: "consistent init"
  by (simp add: consistent_def init_def)

lemma invI:
  assumes "\<And>k. k \<in> set (map fst (fridgeAnalyses s)) \<Longrightarrow> k < nextId s"
    and "\<And>k. k \<in> set (map fst (scannedRecipes s)) \<Longrightarrow> k < nextId s"
    and "\<And>t. t \<in> set (scheduled s) \<Longrightarrow> taskDoc t < nextId s"
    and "distinct (map taskDoc (scheduled s))"
    and "\<And>a sid. ProcessImage a sid \<in> set (scheduled s) \<Longrightarrow>
           \<exists>d. db_get (fridgeAnalyses s) a = Some d \<and> analysisStatus d = Processing"
    and "\<And>r sid d. ProcessRecipeImage r sid \<in> set (scheduled s) \<Longrightarrow>
           db_get (scannedRecipes s) r = Some d \<Longrightarrow> scanStatus d = Processing"
  shows "consistent s"
  unfolding consistent_def using assms by blast

lemma inv_keysF: "consistent s \<Longrightarrow> k \<in> set (map fst (fridgeAnalyses s)) \<Longrightarrow> k < nextId s"
  unfolding consistent_def by blast

lemma inv_keysR: "consistent s \<Longrightarrow> k \<in> set (map fst (scannedRecipes s)) \<Longrightarrow> k < nextId s"
  unfolding consistent_def by blast

lemma inv_scheduled: "consistent s \<Longrightarrow> t \<in> set (scheduled s) \<Longrightarrow> taskDoc t < nextId s"
  unfolding consistent_def by blast

lemma inv_distinct: "consistent s \<Longrightarrow> distinct (map taskDoc (scheduled s))"
  unfolding consistent_def by blast

lemma inv_pendingF:
  "consistent s \<Longrightarrow> ProcessImage a sid \<in> set (scheduled s) \<Longrightarrow>
   \<exists>d. db_get (fridgeAnalyses s) a = Some d \<and> analysisStatus d = Processing"
  unfolding consistent_def by blast

lemma inv_pendingR:
  "consistent s \<Longrightarrow> ProcessRecipeImage r sid \<in> set (scheduled s) \<Longrightarrow>
   db_get (scannedRecipes s) r = Some d \<Longrightarrow> scanStatus d = Processing"
  unfolding consistent_def by blast

lemma inv_fresh:
  assumes "consistent s"
  shows "db_get (fridgeAnalyses s) (nextId s) = None"
    and "db_get (scannedRecipes s) (nextId s) = None"
    and "\<forall>t \<in> set (scheduled s). taskDoc t \<noteq> nextId s"
proof -
  show "db_get (fridgeAnalyses s) (nextId s) = None"
    using inv_keysF [OF assms, of "nextId s"] by (auto simp: db_get_None_iff)
  show "db_get (scannedRecipes s) (nextId s) = None"
    using inv_keysR [OF assms, of "nextId s"] by (auto simp: db_get_None_iff)
  show "\<forall>t \<in> set (scheduled s). taskDoc t \<noteq> nextId s"
  proof
    fix t assume "t \<in> set (scheduled s)"
    from inv_scheduled [OF assms this] show "taskDoc t \<noteq> nextId s" by simp
  qed
qed

lemma inv_step:
  assumes "consistent s"
  shows "consistent (step P s ev)"
proof (cases rule: step_cases [of P s ev])
  case same
  with assms show ?thesis by simp
next
  case (analyze u sid)
  note fresh = inv_fresh [OF assms]
  show ?thesis
    unfolding analyze
  proof (rule invI, simp_all)
    show "\<And>k. k = nextId s \<or> k \<in> fst ` set (fridgeAnalyses s) \<Longrightarrow> k < Suc (nextId s)"
      using inv_keysF [OF assms] by (auto simp: less_Suc_eq)
    show "\<And>k. k \<in> fst ` set (scannedRecipes s) \<Longrightarrow> k < Suc (nextId s)"
      using inv_keysR [OF assms] by (auto simp: less_Suc_eq)
    show "\<And>t. t = ProcessImage (nextId s) sid \<or> t \<in> set (scheduled s) \<Longrightarrow> taskDoc t < Suc (nextId s)"
      using inv_scheduled [OF assms] by (auto simp: less_Suc_eq)
    show "distinct (map taskDoc (scheduled s)) \<and> nextId s \<notin> taskDoc ` set (scheduled s)"
      using inv_distinct [OF assms] fresh(3) by auto
    show "\<And>a sid'. a = nextId s \<and> sid' = sid \<or> ProcessImage a sid' \<in> set (scheduled s) \<Longrightarrow>
         \<exists>d. db_get (fridgeAnalyses s @ [(nextId s, newAnalysis u sid)]) a = Some d \<and>
             analysisStatus d = Processing"
    proof -
      fix a sid'
      assume "a = nextId s \<and> sid' = sid \<or> ProcessImage a sid' \<in> set (scheduled s)"
      then show "\<exists>d. db_get (fridgeAnalyses s @ [(nextId s, newAnalysis u sid)]) a = Some d \<and>
             analysisStatus d = Processing"
      proof
        assume "a = nextId s \<and> sid' = sid"
        with fresh(1) show ?thesis by (simp add: db_get_append newAnalysis_def)
      next
        assume "ProcessImage a sid' \<in> set (scheduled s)"
        from inv_pendingF [OF assms this] show ?thesis by (auto simp: db_get_append)
      qed
    qed
    show "\<And>r sid d. ProcessRecipeImage r sid \<in> set (scheduled s) \<Longrightarrow>
         db_get (scannedRecipes s) r = Some d \<Longrightarrow> scanStatus d = Processing"
      using inv_pendingR [OF assms] by blast
  qed
next
  case (scan u sid)
  note fresh = inv_fresh [OF assms]
  show ?thesis
    unfolding scan
  proof (rule invI, simp_all)
    show "\<And>k. k \<in> fst ` set (fridgeAnalyses s) \<Longrightarrow> k < Suc (nextId s)"
      using inv_keysF [OF assms] by (auto simp: less_Suc_eq)
    show "\<And>k. k = nextId s \<or> k \<in> fst ` set (scannedRecipes s) \<Longrightarrow> k < Suc (nextId s)"
      using inv_keysR [OF assms] by (auto simp: less_Suc_eq)
    show "\<And>t. t = ProcessRecipeImage (nextId s) sid \<or> t \<in> set (scheduled s) \<Longrightarrow> taskDoc t < Suc (nextId s)"
      using inv_scheduled [OF assms] by (auto simp: less_Suc_eq)
    show "distinct (map taskDoc (scheduled s)) \<and> nextId s \<notin> taskDoc ` set (scheduled s)"
      using inv_distinct [OF assms] fresh(3) by auto
    show "\<And>a sid. ProcessImage a sid \<in> set (scheduled s) \<Longrightarrow>
         \<exists>d. db_get (fridgeAnalyses s) a = Some d \<and> analysisStatus d = Processing"
      using inv_pendingF [OF assms] by blast
    show "\<And>r sid' d. r = nextId s \<and> sid' = sid \<or> ProcessRecipeImage r sid' \<in> set (scheduled s) \<Longrightarrow>
         db_get (scannedRecipes s @ [(nextId s, newRecipe u sid)]) r = Some d \<Longrightarrow>
         scanStatus d = Processing"
    proof -
      fix r sid' d
      assume d: "db_get (scannedRecipes s @ [(nextId s, newRecipe u sid)]) r = Some d"
      assume "r = nextId s \<and> sid' = sid \<or> ProcessRecipeImage r sid' \<in> set (scheduled s)"
      then show "scanStatus d = Processing"
      proof
        assume "r = nextId s \<and> sid' = sid"
        with fresh(2) d show ?thesis by (auto simp: db_get_append newRecipe_def)
      next
        assume p: "ProcessRecipeImage r sid' \<in> set (scheduled s)"
        with fresh(3) have "r \<noteq> nextId s" by fastforce
        with d have "db_get (scannedRecipes s) r = Some d"
          by (simp add: db_get_append split: option.splits)
        with inv_pendingR [OF assms p] show ?thesis .
      qed
    qed
  qed
next
  case (delete i)
  show ?thesis
    unfolding delete
  proof (rule invI, simp_all)
    show "\<And>k. k \<in> fst ` set (fridgeAnalyses s) \<Longrightarrow> k < nextId s"
      using inv_keysF [OF assms] by auto
    show "\<And>k. k \<in> fst ` {x \<in> set (scannedRecipes s). case x of (k, d) \<Rightarrow> k \<noteq> i} \<Longrightarrow> k < nextId s"
      using inv_keysR [OF assms] by auto
    show "\<And>t. t \<in> set (scheduled s) \<Longrightarrow> taskDoc t < nextId s"
      using inv_scheduled [OF assms] by blast
    show "distinct (map taskDoc (scheduled s))"
      using inv_distinct [OF assms] .
    show "\<And>a sid. ProcessImage a sid \<in> set (scheduled s) \<Longrightarrow>
         \<exists>d. db_get (fridgeAnalyses s) a = Some d \<and> analysisStatus d = Processing"
      using inv_pendingF [OF assms] by blast
    show "\<And>r sid d. ProcessRecipeImage r sid \<in> set (scheduled s) \<Longrightarrow>
         db_get (filter (\<lambda>(k, d). k \<noteq> i) (scannedRecipes s)) r = Some d \<Longrightarrow>
         scanStatus d = Processing"
      using inv_pendingR [OF assms] by (auto simp: db_get_remove split: if_splits)
  qed
next
  case (dropped i)
  have sub: "\<And>t. t \<in> set (scheduled (unschedule i s)) \<Longrightarrow> t \<in> set (scheduled s)"
    using scheduled_unschedule_subset [of i s] by blast
  show ?thesis
    unfolding dropped(2)
  proof (rule invI, simp_all)
    show "\<And>k. k \<in> fst ` set (fridgeAnalyses s) \<Longrightarrow> k < nextId s"
      using inv_keysF [OF assms] by auto
    show "\<And>k. k \<in> fst ` set (scannedRecipes s) \<Longrightarrow> k < nextId s"
      using inv_keysR [OF assms] by auto
    show "\<And>t. t \<in> set (scheduled (unschedule i s)) \<Longrightarrow> taskDoc t < nextId s"
      using inv_scheduled [OF assms] sub by blast
    show "distinct (map taskDoc (scheduled (unschedule i s)))"
      using unschedule_distinct(1) [OF inv_distinct [OF assms] dropped(1)] .
    show "\<And>a sid. ProcessImage a sid \<in> set (scheduled (unschedule i s)) \<Longrightarrow>
         \<exists>d. db_get (fridgeAnalyses s) a = Some d \<and> analysisStatus d = Processing"
      using inv_pendingF [OF assms] sub by blast
    show "\<And>r sid d. ProcessRecipeImage r sid \<in> set (scheduled (unschedule i s)) \<Longrightarrow>
         db_get (scannedRecipes s) r = Some d \<Longrightarrow> scanStatus d = Processing"
      using inv_pendingR [OF assms] sub by blast
  qed
next
  case (analysed i a sid ings rs st)
  have sub: "\<And>t. t \<in> set (scheduled (unschedule i s)) \<Longrightarrow> t \<in> set (scheduled s)"
    using scheduled_unschedule_subset [of i s] by blast
  have other: "\<And>t. t \<in> set (scheduled (unschedule i s)) \<Longrightarrow> taskDoc t \<noteq> a"
    using unschedule_distinct(2) [OF inv_distinct [OF assms] analysed(1)] analysed(2) by auto
  show ?thesis
    unfolding analysed(4)
  proof (rule invI, simp_all add: keys_patchDoc [simplified])
    show "\<And>k. k \<in> fst ` set (fridgeAnalyses s) \<Longrightarrow> k < nextId s"
      using inv_keysF [OF assms] by auto
    show "\<And>k. k \<in> fst ` set (scannedRecipes s) \<Longrightarrow> k < nextId s"
      using inv_keysR [OF assms] by auto
    show "\<And>t. t \<in> set (scheduled (unschedule i s)) \<Longrightarrow> taskDoc t < nextId s"
      using inv_scheduled [OF assms] sub by blast
    show "distinct (map taskDoc (scheduled (unschedule i s)))"
      using unschedule_distinct(1) [OF inv_distinct [OF assms] analysed(1)] .
    show "\<And>a' sid'. ProcessImage a' sid' \<in> set (scheduled (unschedule i s)) \<Longrightarrow>
         \<exists>d. db_get (patchDoc a (withAnalysis ings rs st) (fridgeAnalyses s)) a' = Some d \<and>
             analysisStatus d = Processing"
    proof -
      fix a' sid'
      assume p: "ProcessImage a' sid' \<in> set (scheduled (unschedule i s))"
      from other [OF p] have "a' \<noteq> a" by simp
      moreover from inv_pendingF [OF assms sub [OF p]]
      obtain d where "db_get (fridgeAnalyses s) a' = Some d \<and> analysisStatus d = Processing" ..
      ultimately show "\<exists>d. db_get (patchDoc a (withAnalysis ings rs st) (fridgeAnalyses s)) a' = Some d \<and>
             analysisStatus d = Processing"
        by (simp add: db_get_patchDoc)
    qed
    show "\<And>r sid d. ProcessRecipeImage r sid \<in> set (scheduled (unschedule i s)) \<Longrightarrow>
         db_get (scannedRecipes s) r = Some d \<Longrightarrow> scanStatus d = Processing"
      using inv_pendingR [OF assms] sub by blast
  qed
next
  case (scanned i a sid rd st)
  have sub: "\<And>t. t \<in> set (scheduled (unschedule i s)) \<Longrightarrow> t \<in> set (scheduled s)"
    using scheduled_unschedule_subset [of i s] by blast
  have other: "\<And>t. t \<in> set (scheduled (unschedule i s)) \<Longrightarrow> taskDoc t \<noteq> a"
    using unschedule_distinct(2) [OF inv_distinct [OF assms] scanned(1)] scanned(2) by auto
  show ?thesis
    unfolding scanned(4)
  proof (rule invI, simp_all add: keys_patchDoc [simplified])
    show "\<And>k. k \<in> fst ` set (fridgeAnalyses s) \<Longrightarrow> k < nextId s"
      using inv_keysF [OF assms] by auto
    show "\<And>k. k \<in> fst ` set (scannedRecipes s) \<Longrightarrow> k < nextId s"
      using inv_keysR [OF assms] by auto
    show "\<And>t. t \<in> set (scheduled (unschedule i s)) \<Longrightarrow> taskDoc t < nextId s"
      using inv_scheduled [OF assms] sub by blast
    show "distinct (map taskDoc (scheduled (unschedule i s)))"
      using unschedule_distinct(1) [OF inv_distinct [OF assms] scanned(1)] .
    show "\<And>a sid. ProcessImage a sid \<in> set (scheduled (unschedule i s)) \<Longrightarrow>
         \<exists>d. db_get (fridgeAnalyses s) a = Some d \<and> analysisStatus d = Processing"
      using inv_pendingF [OF assms] sub by blast
    show "\<And>r sid d. ProcessRecipeImage r sid \<in> set (scheduled (unschedule i s)) \<Longrightarrow>
         db_get (patchDoc a (withRecipeData rd st) (scannedRecipes s)) r = Some d \<Longrightarrow>
         scanStatus d = Processing"
    proof -
      fix r sid' d
      assume p: "ProcessRecipeImage r sid' \<in> set (scheduled (unschedule i s))"
        and d: "db_get (patchDoc a (withRecipeData rd st) (scannedRecipes s)) r = Some d"
      from other [OF p] have "r \<noteq> a" by simp
      with d have "db_get (scannedRecipes s) r = Some d" by (simp add: db_get_patchDoc)
      with inv_pendingR [OF assms sub [OF p]] show "scanStatus d = Processing" .
    qed
  qed
qed

section \<open>The list queries in reachable states\<close>

text \<open>
  In a state reached from the empty store the ids of each table are distinct, so there a
  list query returns the only list that \<open>listing\<close> allows.
\<close>

lemma step_distinct_ids:
  assumes "consistent s"
    and "distinct (map fst (fridgeAnalyses s))" and "distinct (map fst (scannedRecipes s))"
  shows "distinct (map fst (fridgeAnalyses (step P s ev))) \<and>
         distinct (map fst (scannedRecipes (step P s ev)))"
proof (cases rule: step_cases [of P s ev])
  case (analyze u sid)
  from inv_keysF [OF assms(1), of "nextId s"] have "nextId s \<notin> set (map fst (fridgeAnalyses s))"
    by auto
  with assms(2,3) show ?thesis unfolding analyze by simp
next
  case (scan u sid)
  from inv_keysR [OF assms(1), of "nextId s"] have "nextId s \<notin> set (map fst (scannedRecipes s))"
    by auto
  with assms(2,3) show ?thesis unfolding scan by simp
next
  case (delete i)
  from assms(3) have "distinct (map fst (filter (\<lambda>(k, d). k \<noteq> i) (scannedRecipes s)))"
    by (rule distinct_map_filter)
  with assms(2) show ?thesis unfolding delete by simp
qed (use assms(2,3) in \<open>simp_all add: keys_patchDoc\<close>)

lemma run_distinct_ids:
  "distinct (map fst (fridgeAnalyses (run P init evs))) \<and>
   distinct (map fst (scannedRecipes (run P init evs)))"
proof -
  have "distinct (map fst (fridgeAnalyses (run P s evs))) \<and>
        distinct (map fst (scannedRecipes (run P s evs)))"
    if "consistent s" "distinct (map fst (fridgeAnalyses s))" "distinct (map fst (scannedRecipes s))"
    for s
    using that
  proof (induction evs arbitrary: s)
    case Nil
    then show ?case by simp
  next
    case (Cons ev evs)
    from step_distinct_ids [OF Cons.prems, of P ev] inv_step [OF Cons.prems(1), of P ev]
    show ?case by (simp add: Cons.IH)
  qed
  from this [of init] show ?thesis by (simp add: inv_init) (simp add: init_def)
qed

lemma getUserAnalyses_only:
  assumes "listing fa_userId fa_imageId getUrl u (fridgeAnalyses (run P init evs)) rs"
  shows "getUserAnalyses getUrl (Some u) (run P init evs) = Inr rs"
proof -
  let ?q = "map (\<lambda>(k, d). \<lparr>doc_id = k, doc = d, imageUrl = getUrl (fa_imageId d)\<rparr>)
              (db_query_by_user fa_userId u 20 (fridgeAnalyses (run P init evs)))"
  have "distinct (map fst (fridgeAnalyses (run P init evs)))"
    using run_distinct_ids [of P evs] by simp
  then have "?q = rs"
    using listing_query assms by (rule listing_unique)
  then show ?thesis by (simp add: getUserAnalyses_def)
qed

lemma getUserRecipes_only:
  assumes "listing sr_userId sr_imageId getUrl u (scannedRecipes (run P init evs)) rs"
  shows "getUserRecipes getUrl (Some u) (run P init evs) = Inr rs"
proof -
  let ?q = "map (\<lambda>(k, d). \<lparr>doc_id = k, doc = d, imageUrl = getUrl (sr_imageId d)\<rparr>)
              (db_query_by_user sr_userId u 20 (scannedRecipes (run P init evs)))"
  have "distinct (map fst (scannedRecipes (run P init evs)))"
    using run_distinct_ids [of P evs] by simp
  then have "?q = rs"
    using listing_query assms by (rule listing_unique)
  then show ?thesis by (simp add: getUserRecipes_def)
qed

section \<open>Status transitions\<close>

lemma db_get_Some_key: "db_get tbl i = Some d \<Longrightarrow> i \<in> set (map fst tbl)"
  by (metis db_get_None_iff option.distinct(1))

lemma inv_run: "consistent s \<Longrightarrow> consistent (run P s evs)"
  by (induction evs arbitrary: s) (simp_all add: inv_step)

lemma step_nextId_mono: "nextId s \<le> nextId (step P s ev)"
  by (cases rule: step_cases [of P s ev]) simp_all

lemma step_fridge_terminal:
  assumes "consistent s" and "db_get (fridgeAnalyses s) i = Some d" and "analysisStatus d \<noteq> Processing"
  shows "db_get (fridgeAnalyses (step P s ev)) i = Some d"
proof (cases rule: step_cases [of P s ev])
  case (analysed j a sid ings rs st)
  from analysed(1,2) have "ProcessImage a sid \<in> set (scheduled s)"
    by (metis nth_mem)
  from inv_pendingF [OF assms(1) this] assms(2,3) have "i \<noteq> a" by auto
  with assms(2) show ?thesis unfolding analysed(4) by (simp add: db_get_patchDoc)
qed (use assms in \<open>simp_all add: db_get_append\<close>)

lemma step_recipe_terminal:
  assumes "consistent s" and "db_get (scannedRecipes s) i = Some d" and "scanStatus d \<noteq> Processing"
  shows "db_get (scannedRecipes (step P s ev)) i = Some d \<or>
         db_get (scannedRecipes (step P s ev)) i = None"
proof (cases rule: step_cases [of P s ev])
  case (scanned j a sid rd st)
  from scanned(1,2) have "ProcessRecipeImage a sid \<in> set (scheduled s)"
    by (metis nth_mem)
  from inv_pendingR [OF assms(1) this] assms(2,3) have "i \<noteq> a" by auto
  with assms(2) show ?thesis unfolding scanned(4) by (simp add: db_get_patchDoc)
qed (use assms in \<open>simp_all add: db_get_append db_get_remove\<close>)

lemma step_recipe_absent:
  assumes "i < nextId s" and "db_get (scannedRecipes s) i = None"
  shows "db_get (scannedRecipes (step P s ev)) i = None"
  by (cases rule: step_cases [of P s ev])
    (use assms in \<open>auto simp: db_get_append db_get_remove db_get_patchDoc\<close>)

lemma run_fridge_terminal:
  assumes "consistent s" and "db_get (fridgeAnalyses s) i = Some d" and "analysisStatus d \<noteq> Processing"
  shows "db_get (fridgeAnalyses (run P s evs)) i = Some d"
  using assms
proof (induction evs arbitrary: s)
  case Nil
  then show ?case by simp
next
  case (Cons ev evs)
  from Cons.prems have "db_get (fridgeAnalyses (step P s ev)) i = Some d"
    by (rule step_fridge_terminal)
  with Cons.prems(1,3) show ?case
    by (simp add: Cons.IH inv_step)
qed

lemma run_recipe_absent:
  assumes "i < nextId s" and "db_get (scannedRecipes s) i = None"
  shows "db_get (scannedRecipes (run P s evs)) i = None"
  using assms
proof (induction evs arbitrary: s)
  case Nil
  then show ?case by simp
next
  case (Cons ev evs)
  have "i < nextId (step P s ev)"
    using Cons.prems(1) step_nextId_mono [of s P ev] by simp
  moreover have "db_get (scannedRecipes (step P s ev)) i = None"
    using Cons.prems by (rule step_recipe_absent)
  ultimately show ?case by (simp add: Cons.IH)
qed

lemma run_recipe_terminal:
  assumes "consistent s" and "db_get (scannedRecipes s) i = Some d" and "scanStatus d \<noteq> Processing"
  shows "db_get (scannedRecipes (run P s evs)) i = Some d \<or>
         db_get (scannedRecipes (run P s evs)) i = None"
  using assms
proof (induction evs arbitrary: s)
  case Nil
  then show ?case by simp
next
  case (Cons ev evs)
  from Cons.prems(1,2) have "i < nextId s"
    using inv_keysR [of s i] db_get_Some_key [of "scannedRecipes s" i d] by blast
  then have lt: "i < nextId (step P s ev)"
    using step_nextId_mono [of s P ev] by simp
  from Cons.prems
  consider "db_get (scannedRecipes (step P s ev)) i = Some d"
    | "db_get (scannedRecipes (step P s ev)) i = None"
    using step_recipe_terminal [of s i d P ev] by auto
  then show ?case
  proof cases
    case 1
    with Cons.prems(1,3) show ?thesis by (simp add: Cons.IH inv_step)
  next
    case 2
    with lt show ?thesis by (simp add: run_recipe_absent)
  qed
qed

text \<open>
  Claim C1. Take any state reached from the empty store by the system's operations
  (public mutations, queries, scheduled tasks) and any further operations. A fridge
  analysis that is completed or failed is unchanged afterwards; a scanned recipe that is
  completed or failed is unchanged or has been deleted, and an id is never used again; so
  whenever a status differs from an earlier one, the earlier one was processing and the
  later one is completed or failed.
\<close>

theorem status_monotonic:
  "(\<forall>d. db_get (fridgeAnalyses (run P init evs)) i = Some d \<and> analysisStatus d \<noteq> Processing \<longrightarrow>
        db_get (fridgeAnalyses (run P (run P init evs) evs')) i = Some d) \<and>
   (\<forall>d. db_get (scannedRecipes (run P init evs)) i = Some d \<and> scanStatus d \<noteq> Processing \<longrightarrow>
        db_get (scannedRecipes (run P (run P init evs) evs')) i = Some d \<or>
        db_get (scannedRecipes (run P (run P init evs) evs')) i = None) \<and>
   (\<forall>d d'. db_get (fridgeAnalyses (run P init evs)) i = Some d \<and>
           db_get (fridgeAnalyses (run P (run P init evs) evs')) i = Some d' \<and>
           analysisStatus d' \<noteq> analysisStatus d \<longrightarrow>
           analysisStatus d = Processing \<and>
           (analysisStatus d' = Completed \<or> analysisStatus d' = Failed)) \<and>
   (\<forall>d d'. db_get (scannedRecipes (run P init evs)) i = Some d \<and>
           db_get (scannedRecipes (run P (run P init evs) evs')) i = Some d' \<and>
           scanStatus d' \<noteq> scanStatus d \<longrightarrow>
           scanStatus d = Processing \<and>
           (scanStatus d' = Completed \<or> scanStatus d' = Failed))"
proof -
  let ?s = "run P init evs"
  have inv: "consistent ?s" by (simp add: inv_run inv_init)
  have 1: "\<forall>d. db_get (fridgeAnalyses ?s) i = Some d \<and> analysisStatus d \<noteq> Processing \<longrightarrow>
        db_get (fridgeAnalyses (run P ?s evs')) i = Some d"
  proof (intro allI impI, elim conjE)
    fix d
    assume "db_get (fridgeAnalyses ?s) i = Some d" "analysisStatus d \<noteq> Processing"
    with inv show "db_get (fridgeAnalyses (run P ?s evs')) i = Some d"
      by (rule run_fridge_terminal)
  qed
  have 2: "\<forall>d. db_get (scannedRecipes ?s) i = Some d \<and> scanStatus d \<noteq> Processing \<longrightarrow>
        db_get (scannedRecipes (run P ?s evs')) i = Some d \<or>
        db_get (scannedRecipes (run P ?s evs')) i = None"
  proof (intro allI impI, elim conjE)
    fix d
    assume "db_get (scannedRecipes ?s) i = Some d" "scanStatus d \<noteq> Processing"
    with inv show "db_get (scannedRecipes (run P ?s evs')) i = Some d \<or>
        db_get (scannedRecipes (run P ?s evs')) i = None"
      by (rule run_recipe_terminal)
  qed
  have 3: "\<forall>d d'. db_get (fridgeAnalyses ?s) i = Some d \<and>
           db_get (fridgeAnalyses (run P ?s evs')) i = Some d' \<and>
           analysisStatus d' \<noteq> analysisStatus d \<longrightarrow>
           analysisStatus d = Processing \<and>
           (analysisStatus d' = Completed \<or> analysisStatus d' = Failed)"
  proof (intro allI impI, elim conjE)
    fix d d'
    assume a: "db_get (fridgeAnalyses ?s) i = Some d"
      "db_get (fridgeAnalyses (run P ?s evs')) i = Some d'"
      "analysisStatus d' \<noteq> analysisStatus d"
    have "analysisStatus d = Processing"
    proof (rule ccontr)
      assume "analysisStatus d \<noteq> Processing"
      with inv a(1) have "db_get (fridgeAnalyses (run P ?s evs')) i = Some d"
        by (rule run_fridge_terminal)
      with a(2,3) show False by simp
    qed
    with a(3) show "analysisStatus d = Processing \<and>
           (analysisStatus d' = Completed \<or> analysisStatus d' = Failed)"
      by (cases "analysisStatus d'") simp_all
  qed
  have 4: "\<forall>d d'. db_get (scannedRecipes ?s) i = Some d \<and>
           db_get (scannedRecipes (run P ?s evs')) i = Some d' \<and>
           scanStatus d' \<noteq> scanStatus d \<longrightarrow>
           scanStatus d = Processing \<and>
           (scanStatus d' = Completed \<or> scanStatus d' = Failed)"
  proof (intro allI impI, elim conjE)
    fix d d'
    assume a: "db_get (scannedRecipes ?s) i = Some d"
      "db_get (scannedRecipes (run P ?s evs')) i = Some d'"
      "scanStatus d' \<noteq> scanStatus d"
    have "scanStatus d = Processing"
    proof (rule ccontr)
      assume "scanStatus d \<noteq> Processing"
      with inv a(1) have "db_get (scannedRecipes (run P ?s evs')) i = Some d \<or>
          db_get (scannedRecipes (run P ?s evs')) i = None"
        by (rule run_recipe_terminal)
      with a(2,3) show False by auto
    qed
    with a(3) show "scanStatus d = Processing \<and>
           (scanStatus d' = Completed \<or> scanStatus d' = Failed)"
      by (cases "scanStatus d'") simp_all
  qed
  from 1 2 3 4 show ?thesis by (intro conjI)
qed

lemmas system_defs = step_def runTask_def unschedule_def analyzeImage_def scanRecipe_def
  deleteRecipe_def generateUploadUrl_def processImage_def processImage_try_def
  processRecipeImage_def processRecipeImage_try_def runUpdateAnalysis_def updateAnalysis_def
  runUpdateScannedRecipe_def updateScannedRecipe_def db_get_def db_patch_def db_delete_def
  patchDoc_def Let_def anyUrl_def rejectAll_def

lemmas json_defs = v_array_def v_string_def v_recipe_def v_recipeData_def scanFailedData_def
  onlyFields_def field_def optionalField_def getProp_def lengthIsZero_def joinElements_def
  firstContent_def

lemma run_submitted:
  "run P init submitted =
     \<lparr>fridgeAnalyses = [(0, newAnalysis 1 7)], scannedRecipes = [(1, newRecipe 1 8)],
      scheduled = [ProcessImage 0 7, ProcessRecipeImage 1 8], nextId = 2\<rparr>"
  by (simp add: submitted_def init_def system_defs newAnalysis_def newRecipe_def)

lemma run_processed:
  "run P (run P init submitted) processed =
     \<lparr>fridgeAnalyses = [(0, withAnalysis [] [] Failed (newAnalysis 1 7))],
      scannedRecipes = [(1, withRecipeData scanFailed Failed (newRecipe 1 8))],
      scheduled = [], nextId = 2\<rparr>"
  by (simp add: run_submitted processed_def system_defs json_defs js_def
      withAnalysis_def withRecipeData_def scanFailed_def newAnalysis_def newRecipe_def)

lemma run_append: "run P s (evs @ evs') = run P (run P s evs) evs'"
  by (induction evs arbitrary: s) simp_all

lemma run_afterwards:
  "run P (run P init (submitted @ processed)) afterwards =
     \<lparr>fridgeAnalyses = [(0, withAnalysis [] [] Failed (newAnalysis 1 7)), (2, newAnalysis 2 9)],
      scannedRecipes = [],
      scheduled = [ProcessImage 2 9], nextId = 3\<rparr>"
  by (simp add: run_append run_processed afterwards_def system_defs newAnalysis_def
      withRecipeData_def newRecipe_def)

lemma withAnalysis_simps [simp]:
  "analysisStatus (withAnalysis ings rs st d) = st"
  "fa_ingredients (withAnalysis ings rs st d) = ings"
  "fa_recipes (withAnalysis ings rs st d) = rs"
  "fa_userId (withAnalysis ings rs st d) = fa_userId d"
  "fa_imageId (withAnalysis ings rs st d) = fa_imageId d"
  by (simp_all add: withAnalysis_def)

lemma withRecipeData_simps [simp]:
  "scanStatus (withRecipeData rd st d) = st"
  "sr_name (withRecipeData rd st d) = rd_name rd"
  "sr_ingredients (withRecipeData rd st d) = rd_ingredients rd"
  "sr_instructions (withRecipeData rd st d) = rd_instructions rd"
  "sr_cookingTime (withRecipeData rd st d) = rd_cookingTime rd"
  "sr_servings (withRecipeData rd st d) = rd_servings rd"
  "sr_difficulty (withRecipeData rd st d) = rd_difficulty rd"
  "sr_category (withRecipeData rd st d) = rd_category rd"
  "sr_userId (withRecipeData rd st d) = sr_userId d"
  "sr_imageId (withRecipeData rd st d) = sr_imageId d"
  by (simp_all add: withRecipeData_def)

theorem status_monotonic_witness:
  "(\<exists>d. db_get (fridgeAnalyses (run rejectAll init (submitted @ processed))) 0 = Some d \<and>
        analysisStatus d = Failed \<and>
        db_get (fridgeAnalyses (run rejectAll (run rejectAll init (submitted @ processed)) afterwards)) 0 = Some d) \<and>
   (\<exists>d. db_get (scannedRecipes (run rejectAll init (submitted @ processed))) 1 = Some d \<and>
        scanStatus d = Failed \<and>
        db_get (scannedRecipes (run rejectAll (run rejectAll init (submitted @ processed)) afterwards)) 1 = None) \<and>
   (\<exists>d d'. db_get (fridgeAnalyses (run rejectAll init submitted)) 0 = Some d \<and>
        db_get (fridgeAnalyses (run rejectAll (run rejectAll init submitted) processed)) 0 = Some d' \<and>
        analysisStatus d = Processing \<and> analysisStatus d' = Failed) \<and>
   (\<exists>d d'. db_get (scannedRecipes (run rejectAll init submitted)) 1 = Some d \<and>
        db_get (scannedRecipes (run rejectAll (run rejectAll init submitted) processed)) 1 = Some d' \<and>
        scanStatus d = Processing \<and> scanStatus d' = Failed)"
proof -
  let ?f = "withAnalysis [] [] Failed (newAnalysis 1 7)"
  let ?r = "withRecipeData scanFailed Failed (newRecipe 1 8)"
  let ?s = "run rejectAll init (submitted @ processed)"
  let ?t = "run rejectAll init submitted"
  have f1: "db_get (fridgeAnalyses ?s) 0 = Some ?f"
    and r1: "db_get (scannedRecipes ?s) 1 = Some ?r"
    by (simp_all add: run_append run_processed db_get_def)
  have fs: "analysisStatus ?f = Failed" and rs: "scanStatus ?r = Failed"
    by simp_all
  have r2: "db_get (scannedRecipes (run rejectAll ?s afterwards)) 1 = None"
    by (simp add: run_afterwards db_get_def)
  have f0: "db_get (fridgeAnalyses ?t) 0 = Some (newAnalysis 1 7)"
    and r0: "db_get (scannedRecipes ?t) 1 = Some (newRecipe 1 8)"
    by (simp_all add: run_submitted db_get_def)
  have f0': "db_get (fridgeAnalyses (run rejectAll ?t processed)) 0 = Some ?f"
    and r0': "db_get (scannedRecipes (run rejectAll ?t processed)) 1 = Some ?r"
    by (simp_all add: run_processed db_get_def)
  have p: "analysisStatus (newAnalysis 1 7) = Processing" "scanStatus (newRecipe 1 8) = Processing"
    by (simp_all add: newAnalysis_def newRecipe_def)
  have a: "db_get (fridgeAnalyses (run rejectAll ?s afterwards)) 0 = Some ?f"
    by (rule status_monotonic [of rejectAll "submitted @ processed" 0 afterwards,
          THEN conjunct1, rule_format]) (intro conjI f1, simp)
  have b: "analysisStatus (newAnalysis 1 7) = Processing \<and>
           (analysisStatus ?f = Completed \<or> analysisStatus ?f = Failed)"
    by (rule status_monotonic [of rejectAll submitted 0 processed,
          THEN conjunct2, THEN conjunct2, THEN conjunct1, rule_format])
       (intro conjI f0 f0', simp add: newAnalysis_def)
  have c: "scanStatus (newRecipe 1 8) = Processing \<and>
           (scanStatus ?r = Completed \<or> scanStatus ?r = Failed)"
    by (rule status_monotonic [of rejectAll submitted 1 processed,
          THEN conjunct2, THEN conjunct2, THEN conjunct2, rule_format])
       (intro conjI r0 r0', simp add: newRecipe_def)
  have 1: "\<exists>d. db_get (fridgeAnalyses ?s) 0 = Some d \<and> analysisStatus d = Failed \<and>
        db_get (fridgeAnalyses (run rejectAll ?s afterwards)) 0 = Some d"
    using f1 fs a by (intro exI [of _ ?f] conjI)
  have 2: "\<exists>d. db_get (scannedRecipes ?s) 1 = Some d \<and> scanStatus d = Failed \<and>
        db_get (scannedRecipes (run rejectAll ?s afterwards)) 1 = None"
    using r1 rs r2 by (intro exI [of _ ?r] conjI)
  have 3: "\<exists>d d'. db_get (fridgeAnalyses ?t) 0 = Some d \<and>
        db_get (fridgeAnalyses (run rejectAll ?t processed)) 0 = Some d' \<and>
        analysisStatus d = Processing \<and> analysisStatus d' = Failed"
    using f0 f0' b fs by (intro exI [of _ "newAnalysis 1 7"] exI [of _ ?f] conjI) simp_all
  have 4: "\<exists>d d'. db_get (scannedRecipes ?t) 1 = Some d \<and>
        db_get (scannedRecipes (run rejectAll ?t processed)) 1 = Some d' \<and>
        scanStatus d = Processing \<and> scanStatus d' = Failed"
    using r0 r0' c rs by (intro exI [of _ "newRecipe 1 8"] exI [of _ ?r] conjI) simp_all
  from 1 2 3 4 show ?thesis by (intro conjI)
qed

section \<open>The fridge task\<close>

lemma those_v_string_inv: "those (map v_string xs) = Some ys \<Longrightarrow> xs = map JStr ys"
proof (induction xs arbitrary: ys)
  case Nil
  then show ?case by simp
next
  case (Cons x xs)
  then show ?case
    by (cases x) (auto simp: v_string_def split: option.splits)
qed

lemma v_array_string_inv: "v_array v_string x = Some ys \<Longrightarrow> x = JArr (map JStr ys)"
  by (cases x) (auto simp: v_array_def dest: those_v_string_inv)

lemma joinElements_strings: "joinElements (JArr (map JStr ys)) = Inr (map JStr ys)"
  by (auto simp: joinElements_def)

lemma lengthIsZero_strings: "lengthIsZero (JArr (map JStr ys)) = Inr (ys = [])"
  by (simp add: lengthIsZero_def)

lemma v_recipe_fallback: "v_recipe (fallbackRecipe (map JStr ys)) = Some (stirFry ys)"
proof -
  have "v_array v_string (JArr (take 4 (map JStr ys))) = Some (take 4 ys)"
    using v_array_strings [of "take 4 ys"] by (simp add: take_map)
  moreover have "v_array v_string (JArr [JStr a, JStr b, JStr c, JStr d]) = Some [a, b, c, d]" for a b c d
    using v_array_strings [of "[a, b, c, d]"] by simp
  ultimately show ?thesis
    by (simp add: v_recipe_def fallbackRecipe_def stirFry_def onlyFields_def field_def getProp_def
        v_string_def js_def)
qed

lemma scheduled_analysis_exists:
  assumes "i < length (scheduled (run P init evs))"
    and "scheduled (run P init evs) ! i = ProcessImage a sid"
  shows "\<exists>d. db_get (fridgeAnalyses (run P init evs)) a = Some d \<and> analysisStatus d = Processing"
proof -
  have "consistent (run P init evs)" by (simp add: inv_run inv_init)
  moreover from assms have "ProcessImage a sid \<in> set (scheduled (run P init evs))"
    by (metis nth_mem)
  ultimately show ?thesis by (rule inv_pendingF)
qed

lemma step_run_processImage:
  assumes "i < length (scheduled s)" and "scheduled s ! i = ProcessImage a sid"
  shows "step P s (EvRunTask i g r1 r2) = snd (processImage P g r1 r2 a sid (unschedule i s))"
  using assms by (simp add: step_def runTask_def unschedule_def)

lemma processImage_try_not_strings:
  assumes "parseIngredients P choices1 = Inr x" and "v_array v_string x = None"
  shows "\<exists>e. processImage_try P g (Choices choices1) r2 a sid s = (Inl e, s)"
  using assms
  by (auto simp: processImage_try_def runUpdateAnalysis_def
      split: option.splits sum.splits bool.splits completion.splits)

text \<open>
  Claim C5, amended. When the scheduler runs a fridge task whose image resolves, whose
  ingredient extraction gives a non-empty list, and whose recipe response has a content
  on which \<open>JSON.parse\<close> throws: if every element of the list is a string, the stored
  analysis is completed with these ingredients and exactly one recipe, "Simple Stir Fry",
  with the first four ingredients (all of them when there are fewer), the four fixed
  steps, "15 minutes" and "Easy"; if some element is not a string, the stored analysis is
  failed, with no ingredients and no recipes.
\<close>

theorem fallback_recipe_amended:
  assumes "i < length (scheduled (run P init evs))"
    and "scheduled (run P init evs) ! i = ProcessImage a sid"
    and "g sid = Some url" and "url \<noteq> []"
    and "parseIngredients P choices1 = Inr (JArr xs)" and "xs \<noteq> []"
    and "firstContent choices2 = Inr (Some content)" and "content \<noteq> []"
    and "P content = None"
  shows "\<exists>d. db_get (fridgeAnalyses (run P init evs)) a = Some d \<and>
           (\<forall>ings. v_array v_string (JArr xs) = Some ings \<longrightarrow>
              db_get (fridgeAnalyses (step P (run P init evs)
                        (EvRunTask i g (Choices choices1) (Choices choices2)))) a =
                Some (d\<lparr>fa_ingredients := ings,
                         fa_recipes :=
                           [\<lparr>rc_name = js ''Simple Stir Fry'', rc_ingredients = take 4 ings,
                             rc_instructions = [js ''Heat oil in pan'', js ''Add ingredients'',
                                                js ''Stir fry for 5-7 minutes'',
                                                js ''Season and serve''],
                             rc_cookingTime = js ''15 minutes'', rc_difficulty = js ''Easy''\<rparr>],
                         analysisStatus := Completed\<rparr>)) \<and>
           (v_array v_string (JArr xs) = None \<longrightarrow>
              db_get (fridgeAnalyses (step P (run P init evs)
                        (EvRunTask i g (Choices choices1) (Choices choices2)))) a =
                Some (d\<lparr>fa_ingredients := [], fa_recipes := [], analysisStatus := Failed\<rparr>))"
proof -
  let ?s = "run P init evs"
  let ?ev = "EvRunTask i g (Choices choices1) (Choices choices2)"
  from scheduled_analysis_exists [OF assms(1,2)]
  obtain d where d: "db_get (fridgeAnalyses ?s) a = Some d" by blast
  then have d': "db_get (fridgeAnalyses (unschedule i ?s)) a = Some d" by simp
  have st: "step P ?s ?ev =
      snd (processImage P g (Choices choices1) (Choices choices2) a sid (unschedule i ?s))"
    using assms(1,2) by (rule step_run_processImage)
  have strings: "db_get (fridgeAnalyses (step P ?s ?ev)) a =
      Some (withAnalysis ings [stirFry ings] Completed d)"
    if v: "v_array v_string (JArr xs) = Some ings" for ings
  proof -
    from v have x: "JArr xs = JArr (map JStr ings)" by (rule v_array_string_inv)
    with assms(6) have ne: "ings \<noteq> []" by auto
    have rs: "parseRecipes P (map JStr ings) choices2 = JArr [fallbackRecipe (map JStr ings)]"
      using assms(7-9) by (simp add: parseRecipes_def)
    have "v_array v_recipe (JArr [fallbackRecipe (map JStr ings)]) = Some [stirFry ings]"
      by (simp add: v_array_def v_recipe_fallback)
    then have "processImage_try P g (Choices choices1) (Choices choices2) a sid (unschedule i ?s) =
        (Inr (), (unschedule i ?s)\<lparr>fridgeAnalyses :=
            patchDoc a (withAnalysis ings [stirFry ings] Completed) (fridgeAnalyses ?s)\<rparr>)"
      using assms(3-5) ne x rs d'
      by (simp add: processImage_try_def lengthIsZero_strings joinElements_strings
          runUpdateAnalysis_def v_array_strings updateAnalysis_exists)
    then have "step P ?s ?ev =
        (unschedule i ?s)\<lparr>fridgeAnalyses :=
            patchDoc a (withAnalysis ings [stirFry ings] Completed) (fridgeAnalyses ?s)\<rparr>"
      by (simp add: st processImage_def)
    then show ?thesis using d by (simp add: db_get_patchDoc)
  qed
  have other: "db_get (fridgeAnalyses (step P ?s ?ev)) a = Some (withAnalysis [] [] Failed d)"
    if v: "v_array v_string (JArr xs) = None"
  proof -
    from processImage_try_not_strings [OF assms(5) v]
    obtain e where "processImage_try P g (Choices choices1) (Choices choices2) a sid (unschedule i ?s) =
        (Inl e, unschedule i ?s)"
      by blast
    with processImage_cases [OF d', of P g "Choices choices1" "Choices choices2" sid]
    have "processImage P g (Choices choices1) (Choices choices2) a sid (unschedule i ?s) =
        (Inr (), (unschedule i ?s)\<lparr>fridgeAnalyses :=
            patchDoc a (withAnalysis [] [] Failed) (fridgeAnalyses (unschedule i ?s))\<rparr>)"
      by auto
    then show ?thesis using d by (simp add: st db_get_patchDoc)
  qed
  from d strings other show ?thesis by (simp add: withAnalysis_def stirFry_def)
qed

lemma run_submitted_scheduled:
  "scheduled (run P init submitted) = [ProcessImage 0 7, ProcessRecipeImage 1 8]"
  by (simp add: run_submitted)

theorem fallback_recipe_amended_witness:
  "0 < length (scheduled (run rejectAll init submitted)) \<and>
   scheduled (run rejectAll init submitted) ! 0 = ProcessImage 0 7 \<and>
   anyUrl 7 = Some (js ''u'') \<and> js ''u'' \<noteq> [] \<and>
   parseIngredients rejectAll [Some (js ''- eggs'')] = Inr (JArr [JStr (js ''eggs'')]) \<and>
   v_array v_string (JArr [JStr (js ''eggs'')]) = Some [js ''eggs''] \<and>
   firstContent [Some (js ''x'')] = Inr (Some (js ''x'')) \<and> js ''x'' \<noteq> [] \<and>
   rejectAll (js ''x'') = None \<and>
   db_get (fridgeAnalyses (step rejectAll (run rejectAll init submitted)
             (EvRunTask 0 anyUrl (Choices [Some (js ''- eggs'')]) (Choices [Some (js ''x'')])))) 0 =
     Some \<lparr>fa_userId = 1, fa_imageId = 7, fa_ingredients = [js ''eggs''],
           fa_recipes =
             [\<lparr>rc_name = js ''Simple Stir Fry'', rc_ingredients = [js ''eggs''],
               rc_instructions = [js ''Heat oil in pan'', js ''Add ingredients'',
                                  js ''Stir fry for 5-7 minutes'', js ''Season and serve''],
               rc_cookingTime = js ''15 minutes'', rc_difficulty = js ''Easy''\<rparr>],
           analysisStatus = Completed\<rparr> \<and>
   0 < length (scheduled (run parseOneNumber init submitted)) \<and>
   scheduled (run parseOneNumber init submitted) ! 0 = ProcessImage 0 7 \<and>
   parseIngredients parseOneNumber [Some (js ''[1]'')] = Inr (JArr [JNum 1]) \<and>
   v_array v_string (JArr [JNum 1]) = None \<and>
   parseOneNumber (js ''x'') = None \<and>
   db_get (fridgeAnalyses (step parseOneNumber (run parseOneNumber init submitted)
             (EvRunTask 0 anyUrl (Choices [Some (js ''[1]'')]) (Choices [Some (js ''x'')])))) 0 =
     Some \<lparr>fa_userId = 1, fa_imageId = 7, fa_ingredients = [], fa_recipes = [],
           analysisStatus = Failed\<rparr>"
proof -
  have h1: "0 < length (scheduled (run P init submitted))"
    and h2: "scheduled (run P init submitted) ! 0 = ProcessImage 0 7" for P
    by (simp_all add: run_submitted_scheduled)
  have h3: "anyUrl 7 = Some (js ''u'')" and h4: "js ''u'' \<noteq> []"
    by (simp_all add: anyUrl_def js_def)
  have h5: "parseIngredients rejectAll [Some (js ''- eggs'')] = Inr (JArr [JStr (js ''eggs'')])"
    by (simp add: parseIngredients_def firstContent_def fallbackIngredients_def rejectAll_def
        string_defs)
  have h6: "v_array v_string (JArr [JStr (js ''eggs'')]) = Some [js ''eggs'']"
    using v_array_strings [of "[js ''eggs'']"] by simp
  have h7: "[JStr (js ''eggs'')] \<noteq> []" and h7': "[JNum 1] \<noteq> []" by simp_all
  have h8: "firstContent [Some (js ''x'')] = Inr (Some (js ''x''))"
    by (simp add: firstContent_def)
  have h9: "js ''x'' \<noteq> []" by (simp add: js_def)
  have h10: "rejectAll (js ''x'') = None" by (simp add: rejectAll_def)
  have k5: "parseIngredients parseOneNumber [Some (js ''[1]'')] = Inr (JArr [JNum 1])"
    by (simp add: parseIngredients_def firstContent_def parseOneNumber_def js_def)
  have k6: "v_array v_string (JArr [JNum 1]) = None"
    by (simp add: v_array_def v_string_def)
  have k10: "parseOneNumber (js ''x'') = None" by (simp add: parseOneNumber_def js_def)
  have d: "db_get (fridgeAnalyses (run P init submitted)) 0 = Some (newAnalysis 1 7)" for P
    by (simp add: run_submitted db_get_def)
  from fallback_recipe_amended [where P = rejectAll and g = anyUrl and i = 0 and evs = submitted
      and a = 0 and sid = 7 and url = "js ''u''" and content = "js ''x''",
      OF h1 h2 h3 h4 h5 h7 h8 h9 h10] d h6
  have 1: "db_get (fridgeAnalyses (step rejectAll (run rejectAll init submitted)
             (EvRunTask 0 anyUrl (Choices [Some (js ''- eggs'')]) (Choices [Some (js ''x'')])))) 0 =
     Some \<lparr>fa_userId = 1, fa_imageId = 7, fa_ingredients = [js ''eggs''],
           fa_recipes =
             [\<lparr>rc_name = js ''Simple Stir Fry'', rc_ingredients = [js ''eggs''],
               rc_instructions = [js ''Heat oil in pan'', js ''Add ingredients'',
                                  js ''Stir fry for 5-7 minutes'', js ''Season and serve''],
               rc_cookingTime = js ''15 minutes'', rc_difficulty = js ''Easy''\<rparr>],
           analysisStatus = Completed\<rparr>"
    by (auto simp: newAnalysis_def)
  from fallback_recipe_amended [where P = parseOneNumber and g = anyUrl and i = 0
      and evs = submitted and a = 0 and sid = 7 and url = "js ''u''" and content = "js ''x''",
      OF h1 h2 h3 h4 k5 h7' h8 h9 k10] d k6
  have 2: "db_get (fridgeAnalyses (step parseOneNumber (run parseOneNumber init submitted)
             (EvRunTask 0 anyUrl (Choices [Some (js ''[1]'')]) (Choices [Some (js ''x'')])))) 0 =
     Some \<lparr>fa_userId = 1, fa_imageId = 7, fa_ingredients = [], fa_recipes = [],
           analysisStatus = Failed\<rparr>"
    by (auto simp: newAnalysis_def)
  from h1 h2 h3 h4 h5 h6 h8 h9 h10 1 k5 k6 k10 2 show ?thesis by (intro conjI)
qed

text \<open>
  Claim C5 as stated fails when the extracted list holds an element that is not a
  string. \<open>JSON.parse\<close> reads the ingredient response \<open>[1]\<close> as a list of one number; the
  list is not empty, the recipe response is not JSON, and the \<open>catch\<close> block builds the
  fallback recipe from the list. The validator of \<open>updateAnalysis\<close> then rejects the
  ingredients, and the outer \<open>catch\<close> stores the analysis as failed with no recipes.
\<close>

theorem fallback_recipe_counterexample:
  "scheduled (run parseOneNumber init submitted) ! 0 = ProcessImage 0 7 \<and>
   parseIngredients parseOneNumber [Some (js ''[1]'')] = Inr (JArr [JNum 1]) \<and>
   lengthIsZero (JArr [JNum 1]) = Inr False \<and>
   parseOneNumber (js ''no recipes'') = None \<and>
   parseRecipes parseOneNumber [JNum 1] [Some (js ''no recipes'')] =
     JArr [fallbackRecipe [JNum 1]] \<and>
   fst (processImage_try parseOneNumber anyUrl
          (Choices [Some (js ''[1]'')]) (Choices [Some (js ''no recipes'')]) 0 7
          (unschedule 0 (run parseOneNumber init submitted))) =
     Inl ArgumentValidationError \<and>
   db_get (fridgeAnalyses (step parseOneNumber (run parseOneNumber init submitted)
             (EvRunTask 0 anyUrl (Choices [Some (js ''[1]'')])
                (Choices [Some (js ''no recipes'')])))) 0 =
     Some \<lparr>fa_userId = 1, fa_imageId = 7, fa_ingredients = [], fa_recipes = [],
           analysisStatus = Failed\<rparr>"
  by (simp add: run_submitted newAnalysis_def system_defs json_defs parseIngredients_def
      parseRecipes_def parseOneNumber_def js_def)

lemma processImage_try_no_ingredients:
  assumes "parseIngredients P choices = Inr (JArr [])"
  shows "\<exists>e. processImage_try P g (Choices choices) r2 a sid s = (Inl e, s)"
  using assms
  by (auto simp: processImage_try_def lengthIsZero_def split: option.splits)

text \<open>
  Claim C2. When the scheduler runs a fridge task, the analysis of the task exists, the
  task returns without an error, and the analysis is then stored either as failed with
  no ingredients and no recipes, or as completed with at least one ingredient. It is the
  failed one whenever the \<open>try\<close> block throws, and in particular whenever the extracted
  ingredient list is empty.
\<close>

theorem processImage_failure:
  assumes "i < length (scheduled (run P init evs))"
    and "scheduled (run P init evs) ! i = ProcessImage a sid"
  shows "\<exists>d d'. db_get (fridgeAnalyses (run P init evs)) a = Some d \<and>
           fst (processImage P g r1 r2 a sid (unschedule i (run P init evs))) = Inr () \<and>
           db_get (fridgeAnalyses (step P (run P init evs) (EvRunTask i g r1 r2))) a = Some d' \<and>
           ((\<exists>e. fst (processImage_try P g r1 r2 a sid (unschedule i (run P init evs))) = Inl e) \<longrightarrow>
              d' = d\<lparr>fa_ingredients := [], fa_recipes := [], analysisStatus := Failed\<rparr>) \<and>
           ((\<exists>choices. r1 = Choices choices \<and> parseIngredients P choices = Inr (JArr [])) \<longrightarrow>
              d' = d\<lparr>fa_ingredients := [], fa_recipes := [], analysisStatus := Failed\<rparr>) \<and>
           (d' = d\<lparr>fa_ingredients := [], fa_recipes := [], analysisStatus := Failed\<rparr> \<or>
            analysisStatus d' = Completed \<and> fa_ingredients d' \<noteq> [])"
proof -
  let ?s = "run P init evs"
  let ?u = "unschedule i ?s"
  let ?failed = "\<lambda>d. d\<lparr>fa_ingredients := [], fa_recipes := [], analysisStatus := Failed\<rparr>"
  let ?Q = "\<lambda>d d'. db_get (fridgeAnalyses (run P init evs)) a = Some d \<and>
           fst (processImage P g r1 r2 a sid (unschedule i (run P init evs))) = Inr () \<and>
           db_get (fridgeAnalyses (step P (run P init evs) (EvRunTask i g r1 r2))) a = Some d' \<and>
           ((\<exists>e. fst (processImage_try P g r1 r2 a sid (unschedule i (run P init evs))) = Inl e) \<longrightarrow>
              d' = d\<lparr>fa_ingredients := [], fa_recipes := [], analysisStatus := Failed\<rparr>) \<and>
           ((\<exists>choices. r1 = Choices choices \<and> parseIngredients P choices = Inr (JArr [])) \<longrightarrow>
              d' = d\<lparr>fa_ingredients := [], fa_recipes := [], analysisStatus := Failed\<rparr>) \<and>
           (d' = d\<lparr>fa_ingredients := [], fa_recipes := [], analysisStatus := Failed\<rparr> \<or>
            analysisStatus d' = Completed \<and> fa_ingredients d' \<noteq> [])"
  from scheduled_analysis_exists [OF assms]
  obtain d where d: "db_get (fridgeAnalyses ?s) a = Some d" by blast
  then have d': "db_get (fridgeAnalyses ?u) a = Some d" by simp
  have st: "step P ?s (EvRunTask i g r1 r2) = snd (processImage P g r1 r2 a sid ?u)"
    using assms by (rule step_run_processImage)
  from processImage_cases [OF d', of P g r1 r2 sid]
  consider (fail) e where "processImage_try P g r1 r2 a sid ?u = (Inl e, ?u)"
      "processImage P g r1 r2 a sid ?u =
         (Inr (), ?u\<lparr>fridgeAnalyses := patchDoc a (withAnalysis [] [] Failed) (fridgeAnalyses ?u)\<rparr>)"
    | (ok) ings rs where "ings \<noteq> []"
      "processImage_try P g r1 r2 a sid ?u =
         (Inr (), ?u\<lparr>fridgeAnalyses := patchDoc a (withAnalysis ings rs Completed) (fridgeAnalyses ?u)\<rparr>)"
      "processImage P g r1 r2 a sid ?u =
         (Inr (), ?u\<lparr>fridgeAnalyses := patchDoc a (withAnalysis ings rs Completed) (fridgeAnalyses ?u)\<rparr>)"
    by blast
  then show ?thesis
  proof cases
    case fail
    have "db_get (fridgeAnalyses (step P ?s (EvRunTask i g r1 r2))) a = Some (?failed d)"
      using d by (simp add: st fail(2) db_get_patchDoc withAnalysis_def)
    with d fail(2) have "?Q d (?failed d)" by simp
    then show ?thesis by blast
  next
    case ok
    let ?d' = "withAnalysis ings rs Completed d"
    have 1: "db_get (fridgeAnalyses (step P ?s (EvRunTask i g r1 r2))) a = Some ?d'"
      using d by (simp add: st ok(3) db_get_patchDoc)
    have 2: "\<not> (\<exists>e. fst (processImage_try P g r1 r2 a sid ?u) = Inl e)"
      by (simp add: ok(2))
    have 3: "\<not> (\<exists>choices. r1 = Choices choices \<and> parseIngredients P choices = Inr (JArr []))"
    proof
      assume "\<exists>choices. r1 = Choices choices \<and> parseIngredients P choices = Inr (JArr [])"
      then obtain choices where "r1 = Choices choices" "parseIngredients P choices = Inr (JArr [])"
        by blast
      with processImage_try_no_ingredients [of P choices g r2 a sid ?u] ok(2)
      show False by auto
    qed
    have 4: "analysisStatus ?d' = Completed \<and> fa_ingredients ?d' \<noteq> []"
      using ok(1) by simp
    have 5: "fst (processImage P g r1 r2 a sid ?u) = Inr ()" by (simp add: ok(3))
    from d 1 2 3 4 5 have "?Q d ?d'" by auto
    then show ?thesis by blast
  qed
qed

lemma run_analysisSubmitted:
  "run P init analysisSubmitted =
     \<lparr>fridgeAnalyses = [(0, newAnalysis 1 7)], scannedRecipes = [],
      scheduled = [ProcessImage 0 7], nextId = 1\<rparr>"
  by (simp add: analysisSubmitted_def init_def system_defs newAnalysis_def)

theorem processImage_failure_witness:
  "0 < length (scheduled (run rejectAll init analysisSubmitted)) \<and>
   scheduled (run rejectAll init analysisSubmitted) ! 0 = ProcessImage 0 7 \<and>
   parseIngredients rejectAll [Some []] = Inr (JArr []) \<and>
   fst (processImage_try rejectAll anyUrl (Choices [Some []]) Rejected 0 7
          (unschedule 0 (run rejectAll init analysisSubmitted))) = Inl NoIngredientsIdentified \<and>
   fst (processImage rejectAll anyUrl (Choices [Some []]) Rejected 0 7
          (unschedule 0 (run rejectAll init analysisSubmitted))) = Inr () \<and>
   db_get (fridgeAnalyses (step rejectAll (run rejectAll init analysisSubmitted)
             (EvRunTask 0 anyUrl (Choices [Some []]) Rejected))) 0 =
     Some \<lparr>fa_userId = 1, fa_imageId = 7, fa_ingredients = [], fa_recipes = [],
           analysisStatus = Failed\<rparr>"
proof -
  let ?s = "run rejectAll init analysisSubmitted"
  have h1: "0 < length (scheduled ?s)" and h2: "scheduled ?s ! 0 = ProcessImage 0 7"
    by (simp_all add: run_analysisSubmitted)
  have h3: "parseIngredients rejectAll [Some []] = Inr (JArr [])"
    by (simp add: parseIngredients_def firstContent_def)
  have h4: "fst (processImage_try rejectAll anyUrl (Choices [Some []]) Rejected 0 7
          (unschedule 0 ?s)) = Inl NoIngredientsIdentified"
    by (simp add: processImage_try_def anyUrl_def js_def h3 lengthIsZero_def)
  have d: "db_get (fridgeAnalyses ?s) 0 = Some (newAnalysis 1 7)"
    by (simp add: run_analysisSubmitted db_get_def)
  from processImage_failure [OF h1 h2, of anyUrl "Choices [Some []]" Rejected]
  obtain d0 d' where *: "db_get (fridgeAnalyses ?s) 0 = Some d0"
    "fst (processImage rejectAll anyUrl (Choices [Some []]) Rejected 0 7 (unschedule 0 ?s)) = Inr ()"
    "db_get (fridgeAnalyses (step rejectAll ?s (EvRunTask 0 anyUrl (Choices [Some []]) Rejected))) 0 = Some d'"
    "(\<exists>choices. Choices [Some []] = Choices choices \<and> parseIngredients rejectAll choices = Inr (JArr [])) \<longrightarrow>
        d' = d0\<lparr>fa_ingredients := [], fa_recipes := [], analysisStatus := Failed\<rparr>"
    by blast
  from *(1) d have "d0 = newAnalysis 1 7" by simp
  moreover from *(4) h3 have "d' = d0\<lparr>fa_ingredients := [], fa_recipes := [], analysisStatus := Failed\<rparr>"
    by blast
  ultimately have "d' = \<lparr>fa_userId = 1, fa_imageId = 7, fa_ingredients = [], fa_recipes = [],
           analysisStatus = Failed\<rparr>"
    by (simp add: newAnalysis_def)
  with *(2,3) h1 h2 h3 h4 show ?thesis by (intro conjI) simp_all
qed

section \<open>The recipe-scan task\<close>

lemma extractIngredients_contentLines:
  "extractIngredients (contentLines content) = extractIngredients (split_str LF content)"
proof -
  have "filter isIngredientLine (filter (\<lambda>line. trim line \<noteq> []) xs) = filter isIngredientLine xs" for xs
    by (induction xs) (auto dest: isIngredientLine_nonblank)
  then show ?thesis by (simp add: extractIngredients_def contentLines_def)
qed

lemma extractInstructions_contentLines:
  "extractInstructions (contentLines content) = extractInstructions (split_str LF content)"
proof -
  have "filter isInstructionLine (filter (\<lambda>line. trim line \<noteq> []) xs) = filter isInstructionLine xs" for xs
    by (induction xs) (auto dest: isInstructionLine_nonblank)
  then show ?thesis by (simp add: extractInstructions_def contentLines_def)
qed

lemma v_recipeData_full:
  "v_recipeData (JObj [(js ''name'', JStr n),
      (js ''ingredients'', JArr (map JStr is)),
      (js ''instructions'', JArr (map JStr ts)),
      (js ''cookingTime'', JStr c),
      (js ''servings'', JStr e),
      (js ''difficulty'', JStr f),
      (js ''category'', JStr g)]) =
   Some \<lparr>rd_name = n, rd_ingredients = is, rd_instructions = ts, rd_cookingTime = Some c,
         rd_servings = Some e, rd_difficulty = Some f, rd_category = Some g\<rparr>"
  by (simp add: v_recipeData_def onlyFields_def field_def optionalField_def getProp_def
      v_string_def v_array_strings js_def)

lemma nothingExtracted_full:
  "nothingExtracted [(js ''name'', JStr n),
      (js ''ingredients'', JArr (map JStr is)),
      (js ''instructions'', JArr (map JStr ts)),
      (js ''cookingTime'', JStr c),
      (js ''servings'', JStr e),
      (js ''difficulty'', JStr f),
      (js ''category'', JStr g)] = Inr (is = [] \<and> ts = [])"
  by (cases "is = []")
    (simp_all add: nothingExtracted_def propLengthIsZero_def getProp_def lengthIsZero_def js_def)

text \<open>The task on a response that is not JSON, for a recipe that still exists.\<close>

lemma fallbackRecipeData_empty: "fallbackRecipeData [] = defaultRecipeData"
  by (simp add: fallbackRecipeData_def contentLines_def trim_def extractIngredients_def
      extractInstructions_def)

lemma parseRecipeData_fallback:
  "P content = None \<Longrightarrow>
   parseRecipeData P (Some content # choices) = Inr (fallbackRecipeData content)"
  by (simp add: parseRecipeData_def firstContent_def fallbackRecipeData_empty)

lemma processRecipeImage_fallback:
  assumes "db_get (scannedRecipes s) a = Some d" and "g sid = Some url" and "url \<noteq> []"
    and "P content = None"
  defines "is \<equiv> take 15 (extractIngredients (split_str LF content))"
    and "ts \<equiv> take 10 (extractInstructions (split_str LF content))"
  shows "\<exists>rd st. processRecipeImage P g (Choices (Some content # choices)) a sid s =
           (Inr (), s\<lparr>scannedRecipes := patchDoc a (withRecipeData rd st) (scannedRecipes s)\<rparr>) \<and>
           rd_ingredients rd = is \<and> rd_instructions rd = ts \<and>
           (st = Completed \<longleftrightarrow> is \<noteq> [] \<or> ts \<noteq> []) \<and> (st = Failed \<longleftrightarrow> is = [] \<and> ts = [])"
proof -
  from fallbackRecipeData_shape [of content] obtain n where
    shape: "fallbackRecipeData content =
     [(js ''name'', JStr n),
      (js ''ingredients'', JArr (map JStr is)),
      (js ''instructions'', JArr (map JStr ts)),
      (js ''cookingTime'', JStr (js ''Unknown'')),
      (js ''servings'', JStr (js ''Unknown'')),
      (js ''difficulty'', JStr (js ''Medium'')),
      (js ''category'', JStr (js ''Other''))]"
    unfolding is_def ts_def extractIngredients_contentLines extractInstructions_contentLines
    by blast
  let ?rd = "\<lparr>rd_name = n, rd_ingredients = is, rd_instructions = ts,
         rd_cookingTime = Some (js ''Unknown''), rd_servings = Some (js ''Unknown''),
         rd_difficulty = Some (js ''Medium''), rd_category = Some (js ''Other'')\<rparr>"
  have empty_iff_none: "nothingExtracted (fallbackRecipeData content) = Inr (is = [] \<and> ts = [])"
    unfolding shape by (rule nothingExtracted_full)
  have valid: "v_recipeData (JObj (fallbackRecipeData content)) = Some ?rd"
    unfolding shape by (rule v_recipeData_full)
  have parse: "parseRecipeData P (Some content # choices) = Inr (fallbackRecipeData content)"
    using assms(4) by (rule parseRecipeData_fallback)
  show ?thesis
  proof (cases "is = [] \<and> ts = []")
    case True
    with empty_iff_none have "nothingExtracted (fallbackRecipeData content) = Inr True" by simp
    then have "processRecipeImage_try P g (Choices (Some content # choices)) a sid s =
        (Inl NoRecipeInformation, s)"
      by (simp add: processRecipeImage_try_def assms(2,3) parse)
    then have "processRecipeImage P g (Choices (Some content # choices)) a sid s =
        (Inr (), s\<lparr>scannedRecipes := patchDoc a (withRecipeData scanFailed Failed) (scannedRecipes s)\<rparr>)"
      using assms(1)
      by (simp add: processRecipeImage_def runUpdateScannedRecipe_def v_recipeData_scanFailed
          updateScannedRecipe_exists)
    moreover have "rd_ingredients scanFailed = is \<and> rd_instructions scanFailed = ts"
      using True by (simp add: scanFailed_def)
    ultimately show ?thesis using True by blast
  next
    case False
    with empty_iff_none have "nothingExtracted (fallbackRecipeData content) = Inr False" by simp
    then have "processRecipeImage_try P g (Choices (Some content # choices)) a sid s =
        (Inr (), s\<lparr>scannedRecipes := patchDoc a (withRecipeData ?rd Completed) (scannedRecipes s)\<rparr>)"
      by (simp add: processRecipeImage_try_def runUpdateScannedRecipe_def assms(2,3) parse valid
          updateScannedRecipe_exists [OF assms(1)])
    then have "processRecipeImage P g (Choices (Some content # choices)) a sid s =
        (Inr (), s\<lparr>scannedRecipes := patchDoc a (withRecipeData ?rd Completed) (scannedRecipes s)\<rparr>)"
      by (simp add: processRecipeImage_def)
    moreover have "rd_ingredients ?rd = is \<and> rd_instructions ?rd = ts" by simp
    ultimately show ?thesis using False by blast
  qed
qed

text \<open>
  Claim C4, as amended. Take a recipe-scan task whose recipe still exists and whose image
  resolves, and a response content on which \<open>JSON.parse\<close> throws.
  The stored ingredients are the lines that satisfy the ingredient rule (a leading digit,
  bullet, hyphen or asterisk, or a unit keyword), each without its leading run of digits,
  markers, full stops and white space, and trimmed, at most the first 15; the stored
  instructions are the lines that satisfy the instruction rule, at most the first 10. So
  one line satisfying the ingredient rule makes the stored ingredient list non-empty, and
  one line satisfying the instruction rule makes the stored instruction list non-empty.
  A line \<open>2 cups flour\<close> satisfies the ingredient rule and gives the entry \<open>cups flour\<close>.
\<close>

theorem recipe_fallback_amended:
  assumes "db_get (scannedRecipes s) a = Some d" and "g sid = Some url" and "url \<noteq> []"
    and "P content = None"
  shows "\<exists>d'. db_get (scannedRecipes
                 (snd (processRecipeImage P g (Choices (Some content # choices)) a sid s))) a = Some d' \<and>
           sr_ingredients d' =
             take 15 (map (\<lambda>line. trim (stripMarkers line))
                        (filter isIngredientLine (split_str LF content))) \<and>
           sr_instructions d' = take 10 (filter isInstructionLine (split_str LF content)) \<and>
           length (sr_ingredients d') \<le> 15 \<and> length (sr_instructions d') \<le> 10 \<and>
           ((\<exists>line \<in> set (split_str LF content). isIngredientLine line) \<longrightarrow>
              sr_ingredients d' \<noteq> [] \<and> scanStatus d' = Completed) \<and>
           ((\<exists>line \<in> set (split_str LF content). isInstructionLine line) \<longrightarrow>
              sr_instructions d' \<noteq> [] \<and> scanStatus d' = Completed)"
proof -
  let ?is = "take 15 (extractIngredients (split_str LF content))"
  let ?ts = "take 10 (extractInstructions (split_str LF content))"
  from processRecipeImage_fallback [where P = P and g = g and sid = sid and url = url
      and content = content and choices = choices, OF assms]
  obtain rd st where res: "processRecipeImage P g (Choices (Some content # choices)) a sid s =
      (Inr (), s\<lparr>scannedRecipes := patchDoc a (withRecipeData rd st) (scannedRecipes s)\<rparr>)"
    and rd: "rd_ingredients rd = ?is" "rd_instructions rd = ?ts"
    and st: "st = Completed \<longleftrightarrow> ?is \<noteq> [] \<or> ?ts \<noteq> []"
    by blast
  let ?d' = "withRecipeData rd st d"
  have 1: "db_get (scannedRecipes
             (snd (processRecipeImage P g (Choices (Some content # choices)) a sid s))) a = Some ?d'"
    using assms(1) by (simp add: res db_get_patchDoc)
  have 2: "sr_ingredients ?d' =
             take 15 (map (\<lambda>line. trim (stripMarkers line))
                        (filter isIngredientLine (split_str LF content)))"
    by (simp add: rd extractIngredients_def)
  have 3: "sr_instructions ?d' = take 10 (filter isInstructionLine (split_str LF content))"
    by (simp add: rd extractInstructions_def)
  have 4: "length (sr_ingredients ?d') \<le> 15 \<and> length (sr_instructions ?d') \<le> 10"
    by (simp add: rd)
  have 5: "sr_ingredients ?d' \<noteq> [] \<and> scanStatus ?d' = Completed"
    if "\<exists>line \<in> set (split_str LF content). isIngredientLine line"
  proof -
    from that have "filter isIngredientLine (split_str LF content) \<noteq> []"
      by (simp add: filter_empty_conv)
    then have "?is \<noteq> []" by (simp add: extractIngredients_def)
    with st show ?thesis by (simp add: rd)
  qed
  have 6: "sr_instructions ?d' \<noteq> [] \<and> scanStatus ?d' = Completed"
    if "\<exists>line \<in> set (split_str LF content). isInstructionLine line"
  proof -
    from that have "filter isInstructionLine (split_str LF content) \<noteq> []"
      by (simp add: filter_empty_conv)
    then have "?ts \<noteq> []" by (simp add: extractInstructions_def)
    with st show ?thesis by (simp add: rd)
  qed
  from 1 2 3 4 5 6 show ?thesis by (intro exI [of _ ?d']) blast
qed

lemma split_cups: "split_str LF (js ''2 cups flour'') = [js ''2 cups flour'']"
  by (simp add: js_def LF_def)

lemma cups_is_ingredient:
  "isIngredientLine (js ''2 cups flour'')"
  "str_includes (toLowerCase (js ''2 cups flour'')) (js ''cup'')"
  "\<not> isInstructionLine (js ''2 cups flour'')"
  "trim (stripMarkers (js ''2 cups flour'')) = js ''cups flour''"
  by (simp_all add: isIngredientLine_def isInstructionLine_def stripMarkers_def isMarker_def
      string_defs sublist_code)

lemma oneRecipe_eq:
  "oneRecipe = \<lparr>fridgeAnalyses = [], scannedRecipes = [(0, newRecipe 1 7)],
                scheduled = [ProcessRecipeImage 0 7], nextId = 1\<rparr>"
  by (simp add: oneRecipe_def scanRecipe_def init_def newRecipe_def Let_def)

lemma deletedRecipe_eq:
  "deletedRecipe = \<lparr>fridgeAnalyses = [], scannedRecipes = [],
                    scheduled = [ProcessRecipeImage 0 7], nextId = 1\<rparr>"
  by (simp add: deletedRecipe_def oneRecipe_eq deleteRecipe_def db_get_def db_delete_def
      newRecipe_def)

theorem recipe_fallback_amended_witness:
  "db_get (scannedRecipes oneRecipe) 0 = Some (newRecipe 1 7) \<and>
   anyUrl 7 = Some (js ''u'') \<and> js ''u'' \<noteq> [] \<and>
   rejectAll (js ''2 cups flour'') = None \<and>
   (\<exists>line \<in> set (split_str LF (js ''2 cups flour'')). isIngredientLine line) \<and>
   (\<exists>d'. db_get (scannedRecipes
            (snd (processRecipeImage rejectAll anyUrl (Choices [Some (js ''2 cups flour'')]) 0 7
                    oneRecipe))) 0 = Some d' \<and>
         sr_ingredients d' = [js ''cups flour''] \<and> scanStatus d' = Completed)"
proof -
  have h1: "db_get (scannedRecipes oneRecipe) 0 = Some (newRecipe 1 7)"
    by (simp add: oneRecipe_eq db_get_def)
  have h2: "anyUrl 7 = Some (js ''u'')" and h3: "js ''u'' \<noteq> []"
    and h5: "rejectAll (js ''2 cups flour'') = None"
    by (simp_all add: anyUrl_def rejectAll_def js_def)
  have h6: "\<exists>line \<in> set (split_str LF (js ''2 cups flour'')). isIngredientLine line"
    by (simp add: split_cups cups_is_ingredient)
  from recipe_fallback_amended [where P = rejectAll and g = anyUrl and choices = "[]"
      and sid = 7 and url = "js ''u''" and content = "js ''2 cups flour''",
      OF h1 h2 h3 h5] h6
  obtain d' where "db_get (scannedRecipes
            (snd (processRecipeImage rejectAll anyUrl (Choices [Some (js ''2 cups flour'')]) 0 7
                    oneRecipe))) 0 = Some d'"
    "sr_ingredients d' =
       take 15 (map (\<lambda>line. trim (stripMarkers line))
                  (filter isIngredientLine (split_str LF (js ''2 cups flour''))))"
    "scanStatus d' = Completed"
    by blast
  then have "\<exists>d'. db_get (scannedRecipes
            (snd (processRecipeImage rejectAll anyUrl (Choices [Some (js ''2 cups flour'')]) 0 7
                    oneRecipe))) 0 = Some d' \<and>
         sr_ingredients d' = [js ''cups flour''] \<and> scanStatus d' = Completed"
    by (simp add: split_cups cups_is_ingredient)
  with h1 h2 h3 h5 h6 show ?thesis by (intro conjI)
qed

text \<open>
  Claim C4 as stated fails: for the text \<open>2 cups flour\<close>, matched by the unit keyword, the
  stored ingredients are \<open>cups flour\<close>; the line itself is not among them. And when the
  recipe was deleted before its task runs, nothing is stored for the same text.
\<close>

theorem recipe_fallback_counterexample:
  "rejectAll (js ''2 cups flour'') = None \<and>
   str_includes (toLowerCase (js ''2 cups flour'')) (js ''cup'') \<and>
   map_option sr_ingredients
     (db_get (scannedRecipes
        (snd (processRecipeImage rejectAll anyUrl (Choices [Some (js ''2 cups flour'')]) 0 7
                oneRecipe))) 0) = Some [js ''cups flour''] \<and>
   js ''2 cups flour'' \<notin> set [js ''cups flour''] \<and>
   scannedRecipes
     (snd (processRecipeImage rejectAll anyUrl (Choices [Some (js ''2 cups flour'')]) 0 7
             deletedRecipe)) = []"
proof -
  have h1: "db_get (scannedRecipes oneRecipe) 0 = Some (newRecipe 1 7)"
    by (simp add: oneRecipe_eq db_get_def)
  have h2: "anyUrl 7 = Some (js ''u'')" and h3: "js ''u'' \<noteq> []"
    and h5: "rejectAll (js ''2 cups flour'') = None"
    by (simp_all add: anyUrl_def rejectAll_def js_def)
  from processRecipeImage_fallback [where P = rejectAll and g = anyUrl and choices = "[]"
      and sid = 7 and url = "js ''u''" and content = "js ''2 cups flour''",
      OF h1 h2 h3 h5]
  obtain rd st where "processRecipeImage rejectAll anyUrl (Choices [Some (js ''2 cups flour'')]) 0 7 oneRecipe =
      (Inr (), oneRecipe\<lparr>scannedRecipes := patchDoc 0 (withRecipeData rd st) (scannedRecipes oneRecipe)\<rparr>)"
    "rd_ingredients rd = take 15 (extractIngredients (split_str LF (js ''2 cups flour'')))"
    by blast
  then have "map_option sr_ingredients
     (db_get (scannedRecipes
        (snd (processRecipeImage rejectAll anyUrl (Choices [Some (js ''2 cups flour'')]) 0 7
                oneRecipe))) 0) = Some [js ''cups flour'']"
    using h1 by (simp add: db_get_patchDoc split_cups extractIngredients_def cups_is_ingredient)
  moreover have "js ''2 cups flour'' \<notin> set [js ''cups flour'']" by (simp add: js_def)
  moreover have "scannedRecipes
     (snd (processRecipeImage rejectAll anyUrl (Choices [Some (js ''2 cups flour'')]) 0 7
             deletedRecipe)) = []"
    by (simp add: processRecipeImage_missing deletedRecipe_eq db_get_def)
  ultimately show ?thesis using h5 cups_is_ingredient(2) by (intro conjI)
qed

lemma processRecipeImage_try_nothing:
  assumes "g sid = Some url" and "url \<noteq> []" and "parseRecipeData P choices = Inr rd"
    and "getProp rd (js ''ingredients'') = Some (JArr [])"
    and "getProp rd (js ''instructions'') = Some (JArr [])"
  shows "processRecipeImage_try P g (Choices choices) a sid s = (Inl NoRecipeInformation, s)"
  using assms
  by (simp add: processRecipeImage_try_def nothingExtracted_def propLengthIsZero_def
      lengthIsZero_def)

text \<open>
  Claim C6, as amended. For a recipe-scan task whose recipe still exists: the task returns
  without an error; whenever its \<open>try\<close> block throws, the recipe is stored with the name
  "Scan Failed", no ingredients, no instructions, no optional field and the status
  failed; and the \<open>try\<close> block throws when, after parsing, both lists are empty.
\<close>

theorem scan_failure_amended:
  assumes "db_get (scannedRecipes s) a = Some d"
  shows "fst (processRecipeImage P g r a sid s) = Inr () \<and>
     ((\<exists>e. fst (processRecipeImage_try P g r a sid s) = Inl e) \<longrightarrow>
        db_get (scannedRecipes (snd (processRecipeImage P g r a sid s))) a =
          Some (d\<lparr>sr_name := js ''Scan Failed'', sr_ingredients := [], sr_instructions := [],
                   sr_cookingTime := None, sr_servings := None, sr_difficulty := None,
                   sr_category := None, scanStatus := Failed\<rparr>)) \<and>
     ((\<exists>url choices rd. g sid = Some url \<and> url \<noteq> [] \<and> r = Choices choices \<and>
          parseRecipeData P choices = Inr rd \<and>
          getProp rd (js ''ingredients'') = Some (JArr []) \<and>
          getProp rd (js ''instructions'') = Some (JArr [])) \<longrightarrow>
        fst (processRecipeImage_try P g r a sid s) = Inl NoRecipeInformation)"
proof (intro conjI impI)
  from processRecipeImage_cases [OF assms, of P g r sid]
  show "fst (processRecipeImage P g r a sid s) = Inr ()" by auto
next
  assume "\<exists>e. fst (processRecipeImage_try P g r a sid s) = Inl e"
  with processRecipeImage_cases [OF assms, of P g r sid]
  have "processRecipeImage P g r a sid s =
      (Inr (), s\<lparr>scannedRecipes := patchDoc a (withRecipeData scanFailed Failed) (scannedRecipes s)\<rparr>)"
    by auto
  with assms show "db_get (scannedRecipes (snd (processRecipeImage P g r a sid s))) a =
          Some (d\<lparr>sr_name := js ''Scan Failed'', sr_ingredients := [], sr_instructions := [],
                   sr_cookingTime := None, sr_servings := None, sr_difficulty := None,
                   sr_category := None, scanStatus := Failed\<rparr>)"
    by (simp add: db_get_patchDoc withRecipeData_def scanFailed_def)
next
  assume "\<exists>url choices rd. g sid = Some url \<and> url \<noteq> [] \<and> r = Choices choices \<and>
          parseRecipeData P choices = Inr rd \<and>
          getProp rd (js ''ingredients'') = Some (JArr []) \<and>
          getProp rd (js ''instructions'') = Some (JArr [])"
  then show "fst (processRecipeImage_try P g r a sid s) = Inl NoRecipeInformation"
    by (auto simp: processRecipeImage_try_nothing)
qed

theorem scan_failure_amended_witness:
  "db_get (scannedRecipes oneRecipe) 0 = Some (newRecipe 1 7) \<and>
   anyUrl 7 = Some (js ''u'') \<and> js ''u'' \<noteq> [] \<and>
   parseRecipeData rejectAll [Some []] = Inr defaultRecipeData \<and>
   getProp defaultRecipeData (js ''ingredients'') = Some (JArr []) \<and>
   getProp defaultRecipeData (js ''instructions'') = Some (JArr []) \<and>
   fst (processRecipeImage_try rejectAll anyUrl (Choices [Some []]) 0 7 oneRecipe) =
     Inl NoRecipeInformation \<and>
   fst (processRecipeImage rejectAll anyUrl (Choices [Some []]) 0 7 oneRecipe) = Inr () \<and>
   db_get (scannedRecipes (snd (processRecipeImage rejectAll anyUrl (Choices [Some []]) 0 7 oneRecipe))) 0 =
     Some \<lparr>sr_userId = 1, sr_imageId = 7, sr_name = js ''Scan Failed'', sr_ingredients = [],
           sr_instructions = [], sr_cookingTime = None, sr_servings = None,
           sr_difficulty = None, sr_category = None, scanStatus = Failed\<rparr>"
proof -
  have h1: "db_get (scannedRecipes oneRecipe) 0 = Some (newRecipe 1 7)"
    by (simp add: oneRecipe_eq db_get_def)
  have h2: "anyUrl 7 = Some (js ''u'')" and h3: "js ''u'' \<noteq> []"
    by (simp_all add: anyUrl_def js_def)
  have h4: "parseRecipeData rejectAll [Some []] = Inr defaultRecipeData"
    by (simp add: parseRecipeData_def firstContent_def)
  have h5: "getProp defaultRecipeData (js ''ingredients'') = Some (JArr [])"
    and h6: "getProp defaultRecipeData (js ''instructions'') = Some (JArr [])"
    by (simp_all add: getProp_def defaultRecipeData_def js_def)
  note t = scan_failure_amended [OF h1, of rejectAll anyUrl "Choices [Some []]" 7]
  have a: "fst (processRecipeImage_try rejectAll anyUrl (Choices [Some []]) 0 7 oneRecipe) =
     Inl NoRecipeInformation"
    by (rule t [THEN conjunct2, THEN conjunct2, rule_format])
       (intro exI [of _ "js ''u''"] exI [of _ "[Some []]"] exI [of _ defaultRecipeData] conjI
          h2 h3 h4 h5 h6 refl)
  have b: "db_get (scannedRecipes (snd (processRecipeImage rejectAll anyUrl (Choices [Some []]) 0 7 oneRecipe))) 0 =
     Some ((newRecipe 1 7)\<lparr>sr_name := js ''Scan Failed'', sr_ingredients := [], sr_instructions := [],
                   sr_cookingTime := None, sr_servings := None, sr_difficulty := None,
                   sr_category := None, scanStatus := Failed\<rparr>)"
    by (rule t [THEN conjunct2, THEN conjunct1, rule_format]) (simp add: a)
  have c: "fst (processRecipeImage rejectAll anyUrl (Choices [Some []]) 0 7 oneRecipe) = Inr ()"
    by (rule t [THEN conjunct1])
  from b have b': "db_get (scannedRecipes (snd (processRecipeImage rejectAll anyUrl (Choices [Some []]) 0 7 oneRecipe))) 0 =
     Some \<lparr>sr_userId = 1, sr_imageId = 7, sr_name = js ''Scan Failed'', sr_ingredients = [],
           sr_instructions = [], sr_cookingTime = None, sr_servings = None,
           sr_difficulty = None, sr_category = None, scanStatus = Failed\<rparr>"
    by (simp add: newRecipe_def)
  from h1 h2 h3 h4 h5 h6 a c b' show ?thesis by (intro conjI)
qed

text \<open>
  Claim C6 as stated fails when the owner has deleted the recipe before its task runs:
  the inference call is rejected, the mutation of the \<open>catch\<close> block finds no document
  and throws, the task ends with that error, and no failure record is stored.
\<close>

theorem scan_failure_counterexample:
  "scheduled deletedRecipe = [ProcessRecipeImage 0 7] \<and>
   fst (processRecipeImage_try rejectAll anyUrl Rejected 0 7 (unschedule 0 deletedRecipe)) =
     Inl InferenceError \<and>
   fst (processRecipeImage rejectAll anyUrl Rejected 0 7 (unschedule 0 deletedRecipe)) =
     Inl NonexistentDocument \<and>
   scannedRecipes (step rejectAll deletedRecipe (EvRunTask 0 anyUrl Rejected Rejected)) = []"
  by (simp add: deletedRecipe_eq system_defs json_defs js_def)

text \<open>
  Claim C10. In the heuristic, a line that includes none of the six verbs in lower case
  is never extracted as an instruction, whatever its length and whatever verbs it has in
  another letter case; a line that includes \<open>cup\<close>, \<open>tbsp\<close> or \<open>tsp\<close> in any letter case
  satisfies the ingredient rule, and its entry is extracted when it is a line of the text.
\<close>

theorem keyword_case_sensitivity:
  "((\<not> str_includes line (js ''cook'') \<and> \<not> str_includes line (js ''add'') \<and>
     \<not> str_includes line (js ''mix'') \<and> \<not> str_includes line (js ''heat'') \<and>
     \<not> str_includes line (js ''bake'') \<and> \<not> str_includes line (js ''stir'')) \<longrightarrow>
      line \<notin> set (extractInstructions (contentLines content)) \<and>
      (\<forall>xs. getProp (fallbackRecipeData content) (js ''instructions'') = Some (JArr xs) \<longrightarrow>
            JStr line \<notin> set xs)) \<and>
   (((toLowerCase w = js ''cup'' \<or> toLowerCase w = js ''tbsp'' \<or> toLowerCase w = js ''tsp'') \<and>
     str_includes line w) \<longrightarrow>
      isIngredientLine line \<and>
      (line \<in> set (split_str LF content) \<longrightarrow>
         trim (stripMarkers line) \<in> set (extractIngredients (contentLines content))))"
proof (intro conjI impI allI)
  assume no: "\<not> str_includes line (js ''cook'') \<and> \<not> str_includes line (js ''add'') \<and>
     \<not> str_includes line (js ''mix'') \<and> \<not> str_includes line (js ''heat'') \<and>
     \<not> str_includes line (js ''bake'') \<and> \<not> str_includes line (js ''stir'')"
  then have n: "\<not> isInstructionLine line" by (simp add: isInstructionLine_def)
  then show 1: "line \<notin> set (extractInstructions (contentLines content))"
    by (simp add: extractInstructions_def)
  fix xs
  assume "getProp (fallbackRecipeData content) (js ''instructions'') = Some (JArr xs)"
  moreover from fallbackRecipeData_shape [of content]
  have "getProp (fallbackRecipeData content) (js ''instructions'') =
      Some (JArr (map JStr (take 10 (extractInstructions (contentLines content)))))"
    by (auto simp: getProp_def js_def)
  ultimately have "xs = map JStr (take 10 (extractInstructions (contentLines content)))"
    by simp
  with 1 show "JStr line \<notin> set xs" by (auto dest: in_set_takeD)
next
  assume w: "(toLowerCase w = js ''cup'' \<or> toLowerCase w = js ''tbsp'' \<or>
      toLowerCase w = js ''tsp'') \<and> str_includes line w"
  then have "str_includes (toLowerCase line) (toLowerCase w)"
    by (simp add: includes_toLowerCase)
  with w show i: "isIngredientLine line" by (auto simp: isIngredientLine_def)
  assume "line \<in> set (split_str LF content)"
  with i show "trim (stripMarkers line) \<in> set (extractIngredients (contentLines content))"
    by (simp only: extractIngredients_contentLines) (auto simp: extractIngredients_def)
qed

lemma cook_line:
  "length (js ''Cook the pasta until it is al dente.'') > 20"
  "str_includes (toLowerCase (js ''Cook the pasta until it is al dente.'')) (js ''cook'')"
  "\<not> str_includes (js ''Cook the pasta until it is al dente.'') (js ''cook'')"
  "\<not> str_includes (js ''Cook the pasta until it is al dente.'') (js ''add'')"
  "\<not> str_includes (js ''Cook the pasta until it is al dente.'') (js ''mix'')"
  "\<not> str_includes (js ''Cook the pasta until it is al dente.'') (js ''heat'')"
  "\<not> str_includes (js ''Cook the pasta until it is al dente.'') (js ''bake'')"
  "\<not> str_includes (js ''Cook the pasta until it is al dente.'') (js ''stir'')"
  by (simp_all add: string_defs sublist_code)

lemma tbsp_line:
  "toLowerCase (js ''TBSP'') = js ''tbsp''"
  "str_includes (js ''One TBSP of sugar'') (js ''TBSP'')"
  "split_str LF (js ''One TBSP of sugar'') = [js ''One TBSP of sugar'']"
  "trim (stripMarkers (js ''One TBSP of sugar'')) = js ''One TBSP of sugar''"
  by (simp_all add: string_defs sublist_code stripMarkers_def isMarker_def)

theorem keyword_case_sensitivity_witness:
  "length (js ''Cook the pasta until it is al dente.'') > 20 \<and>
   str_includes (toLowerCase (js ''Cook the pasta until it is al dente.'')) (js ''cook'') \<and>
   \<not> str_includes (js ''Cook the pasta until it is al dente.'') (js ''cook'') \<and>
   js ''Cook the pasta until it is al dente.'' \<notin>
     set (extractInstructions (contentLines (js ''Cook the pasta until it is al dente.''))) \<and>
   toLowerCase (js ''TBSP'') = js ''tbsp'' \<and>
   str_includes (js ''One TBSP of sugar'') (js ''TBSP'') \<and>
   isIngredientLine (js ''One TBSP of sugar'') \<and>
   js ''One TBSP of sugar'' \<in> set (extractIngredients (contentLines (js ''One TBSP of sugar'')))"
proof -
  note a = keyword_case_sensitivity [of "js ''Cook the pasta until it is al dente.''"
      "js ''Cook the pasta until it is al dente.''" "js ''TBSP''", THEN conjunct1, rule_format]
  note b = keyword_case_sensitivity [of "js ''One TBSP of sugar''"
      "js ''One TBSP of sugar''" "js ''TBSP''", THEN conjunct2, rule_format]
  have 1: "js ''Cook the pasta until it is al dente.'' \<notin>
     set (extractInstructions (contentLines (js ''Cook the pasta until it is al dente.'')))"
    by (rule a [THEN conjunct1]) (intro conjI cook_line)
  have h: "(toLowerCase (js ''TBSP'') = js ''cup'' \<or> toLowerCase (js ''TBSP'') = js ''tbsp'' \<or>
      toLowerCase (js ''TBSP'') = js ''tsp'') \<and> str_includes (js ''One TBSP of sugar'') (js ''TBSP'')"
    using tbsp_line(1,2) by simp
  have 2: "isIngredientLine (js ''One TBSP of sugar'')"
    by (rule b [OF h, THEN conjunct1])
  have "trim (stripMarkers (js ''One TBSP of sugar''))
      \<in> set (extractIngredients (contentLines (js ''One TBSP of sugar'')))"
    by (rule b [OF h, THEN conjunct2, rule_format]) (simp add: tbsp_line(3))
  then have 3: "js ''One TBSP of sugar'' \<in> set (extractIngredients (contentLines (js ''One TBSP of sugar'')))"
    by (simp only: tbsp_line(4))
  from cook_line(1,2,3) 1 tbsp_line(1,2) 2 3 show ?thesis by (intro conjI)
qed

end
